theory Spec2Isabelle
  imports Main "HOL-Library.Word"
begin

section \<open>JavaScript strings and arrays\<close>

text \<open>
  A JavaScript string is a sequence of UTF-16 code units, and the regular expressions of
  the program (none carries the \<^verbatim>\<open>u\<close> flag) as well as \<^verbatim>\<open>trim\<close> work on code units.
  A string is therefore a list of 16-bit words; \<open>js\<close> embeds an ASCII literal.
\<close>

type_synonym jschar = "16 word"
type_synonym jsstring = "jschar list"

definition js :: "string \<Rightarrow> jsstring" where
  "js s = map of_char s"

definition hyphen :: jschar where
  "hyphen = 0x2D"

text \<open>
  \<^verbatim>\<open>\w\<close> without the \<^verbatim>\<open>u\<close> flag is \<^verbatim>\<open>[A-Za-z0-9_]\<close>.
\<close>

definition is_word :: "jschar \<Rightarrow> bool" where
  "is_word c \<longleftrightarrow>
     (0x41 \<le> c \<and> c \<le> 0x5A) \<or> (0x61 \<le> c \<and> c \<le> 0x7A) \<or> (0x30 \<le> c \<and> c \<le> 0x39) \<or> c = 0x5F"

text \<open>
  \<^verbatim>\<open>\s\<close> and \<^verbatim>\<open>trim\<close> use the same set: ECMAScript WhiteSpace (TAB, VT, FF, SP, NBSP,
  ZWNBSP and the other space separators) and LineTerminator (LF, CR, LS, PS).
\<close>

definition is_space :: "jschar \<Rightarrow> bool" where
  "is_space c \<longleftrightarrow>
     (0x09 \<le> c \<and> c \<le> 0x0D) \<or> c = 0x20 \<or> c = 0xA0 \<or> c = 0x1680 \<or>
     (0x2000 \<le> c \<and> c \<le> 0x200A) \<or> c = 0x2028 \<or> c = 0x2029 \<or> c = 0x202F \<or>
     c = 0x205F \<or> c = 0x3000 \<or> c = 0xFEFF"

text \<open>\<^verbatim>\<open>String.prototype.trim\<close>: white space is removed from both ends.\<close>

definition trim :: "jsstring \<Rightarrow> jsstring" where
  "trim s = rev (dropWhile is_space (rev (dropWhile is_space s)))"

subsection \<open>Global replacement by a regular expression\<close>

text \<open>
  The three patterns of \<^verbatim>\<open>generateFilename\<close> are a character class and a character class
  under \<^verbatim>\<open>+\<close>. A matcher gives the length of the match that starts at the head of the
  remaining input, if there is one.
\<close>

type_synonym matcher = "jsstring \<Rightarrow> nat option"

definition re_class :: "(jschar \<Rightarrow> bool) \<Rightarrow> matcher" where
  "re_class P s = (case s of [] \<Rightarrow> None | c # cs \<Rightarrow> if P c then Some 1 else None)"

text \<open>\<^verbatim>\<open>+\<close> is greedy: the match is the longest run of class members, and has at least one.\<close>

definition re_class_plus :: "(jschar \<Rightarrow> bool) \<Rightarrow> matcher" where
  "re_class_plus P s =
     (let n = length (takeWhile P s) in if n = 0 then None else Some n)"

text \<open>
  \<^verbatim>\<open>s.replace(/re/g, r)\<close> with a replacement \<open>r\<close> free of \<^verbatim>\<open>$\<close>: the input is scanned
  from the left; a match is replaced by \<open>r\<close> and scanning resumes behind it; a position
  without a match copies one code unit. An empty match inserts \<open>r\<close> and copies one
  code unit.
\<close>

fun replace_all :: "matcher \<Rightarrow> jsstring \<Rightarrow> jsstring \<Rightarrow> jsstring" where
  "replace_all m r [] = (case m [] of Some _ \<Rightarrow> r | None \<Rightarrow> [])"
| "replace_all m r (c # cs) =
     (case m (c # cs) of
        None \<Rightarrow> c # replace_all m r cs
      | Some 0 \<Rightarrow> r @ c # replace_all m r cs
      | Some (Suc n) \<Rightarrow> r @ replace_all m r (drop n cs))"

section \<open>Output file names\<close>

text \<open>
  \<^verbatim>\<open>
  function generateFilename(base, instrument) {
    const sanitized = instrument
      .replace(/[^\w\s-]/g, '')
      .replace(/\s+/g, '-')
      .replace(/-+/g, '-');
    return `${base}-${sanitized}.pdf`;
  }
  \<close>
\<close>

definition generateFilename :: "jsstring \<Rightarrow> jsstring \<Rightarrow> jsstring" where
  "generateFilename base instrument =
     (let sanitized =
        replace_all (re_class_plus (\<lambda>c. c = hyphen)) (js ''-'')
          (replace_all (re_class_plus is_space) (js ''-'')
            (replace_all (re_class (\<lambda>c. \<not> (is_word c \<or> is_space c \<or> c = hyphen))) (js '''')
              instrument))
      in base @ js ''-'' @ sanitized @ js ''.pdf'')"

subsection \<open>The rule of the specification\<close>

text \<open>
  The specification states the rule in words: strip every character outside a set of kept
  characters, replace each run of white space by one hyphen, collapse each run of hyphens
  into one, and put the result between the base name and the extension.
  \<open>squeeze P\<close> replaces every maximal run of characters satisfying \<open>P\<close> by a single
  hyphen; it looks at a character and its successor only.
\<close>

fun squeeze :: "(jschar \<Rightarrow> bool) \<Rightarrow> jsstring \<Rightarrow> jsstring" where
  "squeeze P [] = []"
| "squeeze P [c] = [if P c then hyphen else c]"
| "squeeze P (c # d # cs) =
     (if P c then (if P d then squeeze P (d # cs) else hyphen # squeeze P (d # cs))
      else c # squeeze P (d # cs))"

definition deriveFilename_rule :: "(jschar \<Rightarrow> bool) \<Rightarrow> jsstring \<Rightarrow> jsstring \<Rightarrow> jsstring" where
  "deriveFilename_rule keep base instrument =
     base @ js ''-'' @
     squeeze (\<lambda>c. c = hyphen) (squeeze is_space (filter keep instrument)) @ js ''.pdf''"

text \<open>
  The kept characters in the words of the specification are the alphanumeric ones, white
  space and the hyphen. Alphanumeric is read as the ASCII letters and digits; whatever
  else may count as a letter, the underscore is neither a letter nor a digit.
\<close>

definition is_alnum :: "jschar \<Rightarrow> bool" where
  "is_alnum c \<longleftrightarrow>
     (0x41 \<le> c \<and> c \<le> 0x5A) \<or> (0x61 \<le> c \<and> c \<le> 0x7A) \<or> (0x30 \<le> c \<and> c \<le> 0x39)"

definition deriveFilename :: "jsstring \<Rightarrow> jsstring \<Rightarrow> jsstring" where
  "deriveFilename = deriveFilename_rule (\<lambda>c. is_alnum c \<or> is_space c \<or> c = hyphen)"

section \<open>The edit session\<close>

text \<open>
  The module-level state of the splitter page is the array \<^verbatim>\<open>detectedSplits\<close> of split
  objects and the array \<^verbatim>\<open>generatedPDFs\<close> of outputs. Page numbers and array indices
  are JavaScript numbers; they are integers here.

  The split objects of \<^verbatim>\<open>detectedSplits\<close> are pairwise different objects (one is made
  per detected part, and the handlers only remove entries), so the array is a list of
  values and the mutation of one object is the update of one position.
\<close>

record split =
  instrument :: jsstring
  startPage :: int
  endPage :: int
  pages :: "int list"

text \<open>
  An output is \<^verbatim>\<open>{ filename, blob, split }\<close>. The type of the assembled bytes is left
  open. In the program the field \<open>split\<close> refers to the live split object; here it is a
  copy taken when the output is made. No handler reads the field and no statement about
  these handlers speaks of it: the outputs with their references are the matter of the
  section on split objects and pending regenerations.
  An array can have holes (\<^verbatim>\<open>a[i] = v\<close> beyond the end extends it), so the entries of
  \<^verbatim>\<open>generatedPDFs\<close> are optional.
\<close>

record 'b generatedPDF =
  filename :: jsstring
  blob :: 'b
  split :: split

record 'b session =
  detectedSplits :: "split list"
  generatedPDFs :: "'b generatedPDF option list"

text \<open>
  What the handlers read from outside the two arrays: the value of the base file name
  input, the name of the uploaded file, and the document library, which turns the
  zero-based page indices of a split into the bytes of a new document or throws (\<open>None\<close>).
\<close>

record 'b env =
  baseFilenameInput :: jsstring
  currentFileName :: jsstring
  assemble :: "int list \<Rightarrow> 'b option"

datatype js_error = TypeError

subsection \<open>Array primitives\<close>

text \<open>\<^verbatim>\<open>a[i]\<close>: the element, or \<^verbatim>\<open>undefined\<close> outside the array.\<close>

definition js_index :: "'a list \<Rightarrow> int \<Rightarrow> 'a option" where
  "js_index xs i = (if 0 \<le> i \<and> i < int (length xs) then Some (xs ! nat i) else None)"

text \<open>
  \<^verbatim>\<open>a.splice(i, 1)\<close>: a negative start counts from the end, the start is clamped to the
  array, and one element is removed if there is one at the start.
\<close>

definition splice1 :: "int \<Rightarrow> 'a list \<Rightarrow> 'a list" where
  "splice1 i xs =
     (let len = int (length xs);
          start = (if i < 0 then max (len + i) 0 else min i len)
      in take (nat start) xs @ drop (Suc (nat start)) xs)"

text \<open>\<^verbatim>\<open>a[i] = v\<close> for an index \<open>i \<ge> 0\<close>: beyond the end the array grows, with holes.\<close>

definition js_assign :: "'a option list \<Rightarrow> nat \<Rightarrow> 'a \<Rightarrow> 'a option list" where
  "js_assign xs i v =
     (if i < length xs then xs[i := Some v]
      else xs @ replicate (i - length xs) None @ [Some v])"

subsection \<open>Regenerating one output\<close>

text \<open>
  \<^verbatim>\<open>name.replace(/\.pdf$/i, '')\<close>: a final \<^verbatim>\<open>.pdf\<close>, in any case of the letters, is cut off.
\<close>

definition strip_pdf :: "jsstring \<Rightarrow> jsstring" where
  "strip_pdf s =
     (let n = length s - 4; ext = drop n s
      in if length s \<ge> 4 \<and> ext ! 0 = 0x2E \<and> (ext ! 1 = 0x70 \<or> ext ! 1 = 0x50) \<and>
            (ext ! 2 = 0x64 \<or> ext ! 2 = 0x44) \<and> (ext ! 3 = 0x66 \<or> ext ! 3 = 0x46)
         then take n s else s)"

text \<open>
  \<^verbatim>\<open>
  async function regeneratePDFForSplit(index) {
    try {
      const split = detectedSplits[index];
      ... copy split.pages.map(p => p - 1) into a new document, save it as blob ...
      const baseFilename = baseFilenameInput.value.trim() || currentFile.name.replace(/\.pdf$/i, '');
      const filename = generateFilename(baseFilename, split.instrument);
      generatedPDFs[index] = { filename, blob, split };
    } catch (error) { console.error(...); }
  }
  \<close>
  Every exception, also the one of reading \<^verbatim>\<open>split.pages\<close> of \<^verbatim>\<open>undefined\<close>, is caught
  and leaves the state as it is.
\<close>

definition regeneratePDFForSplit :: "'b env \<Rightarrow> int \<Rightarrow> 'b session \<Rightarrow> 'b session" where
  "regeneratePDFForSplit env index st =
     (case js_index (detectedSplits st) index of
        None \<Rightarrow> st
      | Some sp \<Rightarrow>
          (case assemble env (map (\<lambda>p. p - 1) (pages sp)) of
             None \<Rightarrow> st
           | Some bytes \<Rightarrow>
               (let baseFilename =
                      (if trim (baseFilenameInput env) \<noteq> [] then trim (baseFilenameInput env)
                       else strip_pdf (currentFileName env));
                    name = generateFilename baseFilename (instrument sp)
                in st\<lparr>generatedPDFs :=
                        js_assign (generatedPDFs st) (nat index)
                          \<lparr>filename = name, blob = bytes, split = sp\<rparr>\<rparr>)))"

subsection \<open>Renaming and merging\<close>

text \<open>
  A handler either completes, which gives the new state (its promise is fulfilled with
  \<^verbatim>\<open>undefined\<close>: no handler returns a value), or throws a \<^verbatim>\<open>TypeError\<close> at a property
  access on \<^verbatim>\<open>undefined\<close>. Each throw happens before the first assignment of the handler,
  so \<open>Inl\<close> leaves the state untouched. Redrawing the list (\<^verbatim>\<open>displayPreview\<close>) reads the
  two arrays and the loaded document, which is there whenever there are splits, and writes
  to the page only. A handler runs to its end before the next one starts; the regeneration
  that the rename handler starts without awaiting it is run to its end with the handler.
  For the split list this loses nothing, since a handler writes the split list before its
  first \<^verbatim>\<open>await\<close> and regeneration never writes it. The output list, which a regeneration
  writes after its \<^verbatim>\<open>await\<close>s, is followed in the section on split objects and pending
  regenerations.
  The index of the rename handler is the number parsed from the input field's attribute.

  \<^verbatim>\<open>
  function handleInstrumentNameChange(event) {
    const index = parseInt(event.target.dataset.splitIndex);
    const newName = event.target.value.trim();
    if (newName) {
      detectedSplits[index].instrument = newName;
      regeneratePDFForSplit(index);
    }
  }
  \<close>
\<close>

definition handleInstrumentNameChange ::
  "'b env \<Rightarrow> int \<Rightarrow> jsstring \<Rightarrow> 'b session \<Rightarrow> js_error + 'b session" where
  "handleInstrumentNameChange env index val st =
     (let newName = trim val
      in if newName \<noteq> [] then
           (case js_index (detectedSplits st) index of
              None \<Rightarrow> Inl TypeError
            | Some sp \<Rightarrow>
                Inr (regeneratePDFForSplit env index
                  (st\<lparr>detectedSplits :=
                        (detectedSplits st)[nat index := sp\<lparr>instrument := newName\<rparr>]\<rparr>)))
         else Inr st)"

text \<open>
  \<^verbatim>\<open>
  window.mergeWithPrevious = async function(index) {
    if (index === 0) return;
    const currentSplit = detectedSplits[index];
    const previousSplit = detectedSplits[index - 1];
    previousSplit.pages = [...previousSplit.pages, ...currentSplit.pages];
    previousSplit.endPage = currentSplit.endPage;
    detectedSplits.splice(index, 1);
    generatedPDFs.splice(index, 1);
    await regeneratePDFForSplit(index - 1);
    displayPreview();
  };
  \<close>
\<close>

definition mergeWithPrevious :: "'b env \<Rightarrow> int \<Rightarrow> 'b session \<Rightarrow> js_error + 'b session" where
  "mergeWithPrevious env index st =
     (if index = 0 then Inr st
      else
        (case js_index (detectedSplits st) (index - 1) of
           None \<Rightarrow> Inl TypeError
         | Some previousSplit \<Rightarrow>
             (case js_index (detectedSplits st) index of
                None \<Rightarrow> Inl TypeError
              | Some currentSplit \<Rightarrow>
                  (let merged = previousSplit
                         \<lparr>pages := pages previousSplit @ pages currentSplit,
                          endPage := endPage currentSplit\<rparr>;
                       splits = (detectedSplits st)[nat (index - 1) := merged]
                   in Inr (regeneratePDFForSplit env (index - 1)
                        (st\<lparr>detectedSplits := splice1 index splits,
                            generatedPDFs := splice1 index (generatedPDFs st)\<rparr>))))))"

text \<open>
  \<^verbatim>\<open>
  window.mergeWithNext = async function(index) {
    if (index === detectedSplits.length - 1) return;
    const currentSplit = detectedSplits[index];
    const nextSplit = detectedSplits[index + 1];
    currentSplit.pages = [...currentSplit.pages, ...nextSplit.pages];
    currentSplit.endPage = nextSplit.endPage;
    currentSplit.instrument = nextSplit.instrument;
    detectedSplits.splice(index + 1, 1);
    generatedPDFs.splice(index + 1, 1);
    await regeneratePDFForSplit(index);
    displayPreview();
  };
  \<close>
\<close>

definition mergeWithNext :: "'b env \<Rightarrow> int \<Rightarrow> 'b session \<Rightarrow> js_error + 'b session" where
  "mergeWithNext env index st =
     (if index = int (length (detectedSplits st)) - 1 then Inr st
      else
        (case js_index (detectedSplits st) index of
           None \<Rightarrow> Inl TypeError
         | Some currentSplit \<Rightarrow>
             (case js_index (detectedSplits st) (index + 1) of
                None \<Rightarrow> Inl TypeError
              | Some nextSplit \<Rightarrow>
                  (let merged = currentSplit
                         \<lparr>pages := pages currentSplit @ pages nextSplit,
                          endPage := endPage nextSplit,
                          instrument := instrument nextSplit\<rparr>;
                       splits = (detectedSplits st)[nat index := merged]
                   in Inr (regeneratePDFForSplit env index
                        (st\<lparr>detectedSplits := splice1 (index + 1) splits,
                            generatedPDFs := splice1 (index + 1) (generatedPDFs st)\<rparr>))))))"

subsection \<open>The coverage invariant\<close>

text \<open>
  A split is well formed when its pages are strictly increasing and contiguous and its
  \<open>startPage\<close> and \<open>endPage\<close> are the first and the last of them (so there is a page). A
  split list covers \<open>1..n\<close> when every split is well formed and the page lists, put
  together in order, are exactly \<open>[1, \<dots>, n]\<close>.
\<close>

definition split_ok :: "split \<Rightarrow> bool" where
  "split_ok s \<longleftrightarrow>
     pages s \<noteq> [] \<and> sorted_wrt (<) (pages s) \<and> successively (\<lambda>p q. q = p + 1) (pages s) \<and>
     startPage s = hd (pages s) \<and> endPage s = last (pages s)"

definition coverage :: "int \<Rightarrow> split list \<Rightarrow> bool" where
  "coverage n splits \<longleftrightarrow> list_all split_ok splits \<and> concat (map pages splits) = [1..n]"

subsection \<open>A session of two cornet parts\<close>

definition cornets :: "split list" where
  "cornets =
     [\<lparr>instrument = js ''Cornet 1'', startPage = 1, endPage = 2, pages = [1, 2]\<rparr>,
      \<lparr>instrument = js ''Cornet 2'', startPage = 3, endPage = 4, pages = [3, 4]\<rparr>]"

text \<open>
  A document library that answers with the page indices it was given, a band name in the
  input field, and the two outputs that belong to the two parts.
\<close>

definition band_env :: "int list env" where
  "band_env = \<lparr>baseFilenameInput = js ''MyBand'', currentFileName = js ''parts.pdf'',
               assemble = Some\<rparr>"

definition band_session :: "int list session" where
  "band_session =
     \<lparr>detectedSplits = cornets,
      generatedPDFs =
        [Some \<lparr>filename = js ''MyBand-Cornet-1.pdf'', blob = [0, 1], split = cornets ! 0\<rparr>,
         Some \<lparr>filename = js ''MyBand-Cornet-2.pdf'', blob = [2, 3], split = cornets ! 1\<rparr>]\<rparr>"

subsection \<open>A session of three parts\<close>

definition trio :: "split list" where
  "trio =
     [\<lparr>instrument = js ''Cornet 1'', startPage = 1, endPage = 2, pages = [1, 2]\<rparr>,
      \<lparr>instrument = js ''Cornet 2'', startPage = 3, endPage = 4, pages = [3, 4]\<rparr>,
      \<lparr>instrument = js ''Tuba'', startPage = 5, endPage = 5, pages = [5]\<rparr>]"

definition trio_session :: "int list session" where
  "trio_session =
     \<lparr>detectedSplits = trio,
      generatedPDFs =
        [Some \<lparr>filename = js ''MyBand-Cornet-1.pdf'', blob = [0, 1], split = trio ! 0\<rparr>,
         Some \<lparr>filename = js ''MyBand-Cornet-2.pdf'', blob = [2, 3], split = trio ! 1\<rparr>,
         Some \<lparr>filename = js ''MyBand-Tuba.pdf'', blob = [4], split = trio ! 2\<rparr>]\<rparr>"

text \<open>What a caller can tell from a completed handler is the split list it left.\<close>

definition splits_after :: "js_error + 'b session \<Rightarrow> split list option" where
  "splits_after r = (case r of Inl e \<Rightarrow> None | Inr st \<Rightarrow> Some (detectedSplits st))"

text \<open>
  A handler has one way to tell its caller that it refused the request: its promise is
  rejected. A fulfilled promise carries \<^verbatim>\<open>undefined\<close> whether or not anything was merged.
\<close>

definition rejection_reported :: "js_error + 'b session \<Rightarrow> bool" where
  "rejection_reported r = (case r of Inl e \<Rightarrow> True | Inr st \<Rightarrow> False)"

section \<open>Label resolution and segmentation\<close>

text \<open>
  \<^verbatim>\<open>analyzePDF\<close> is imported from \<^verbatim>\<open>pdf-splitter.js\<close>, which is not among the sources.
  The resolver and the segmenter are therefore taken from the specification.
\<close>

text \<open>Modelled from the spec: the Page of section 3, an index from 1 and the extracted
  text, which can be absent (the text extraction of \<^verbatim>\<open>pdf-splitter.js\<close> is missing).\<close>

record page =
  page_index :: int
  rawText :: "jsstring option"

text \<open>Modelled from the spec: the ResolvedLabel of section 3 (the resolver of
  \<^verbatim>\<open>pdf-splitter.js\<close> is missing).\<close>

record resolvedLabel =
  pageIndex :: int
  resolved_instrument :: jsstring
  matched :: bool

text \<open>Modelled from the spec: \<open>resolve(raw, previousResolved)\<close> of section 4.2 (missing with
  \<^verbatim>\<open>pdf-splitter.js\<close>). The matching of a present text against the catalog, that is the
  normalisation, the similarity measure and the threshold, is the parameter \<open>classify\<close>,
  which gives the instrument and the matched flag: the specification fixes none of them.
  An absent text continues the previous page; on the first page it gives the unmatched
  label with the empty instrument.\<close>

definition resolve ::
  "(jsstring \<Rightarrow> jsstring \<times> bool) \<Rightarrow> page \<Rightarrow> resolvedLabel option \<Rightarrow> resolvedLabel" where
  "resolve classify pg previousResolved =
     (case rawText pg of
        Some raw \<Rightarrow>
          \<lparr>pageIndex = page_index pg, resolved_instrument = fst (classify raw),
           matched = snd (classify raw)\<rparr>
      | None \<Rightarrow>
          (case previousResolved of
             Some prev \<Rightarrow>
               \<lparr>pageIndex = page_index pg, resolved_instrument = resolved_instrument prev,
                matched = matched prev\<rparr>
           | None \<Rightarrow>
               \<lparr>pageIndex = page_index pg, resolved_instrument = [], matched = False\<rparr>))"

text \<open>Modelled from the spec: the resolver run over the pages in order, each page with the
  label of the page before it (section 2: the Segmenter consumes the full ordered sequence
  of resolved labels; the loop of \<^verbatim>\<open>pdf-splitter.js\<close> is missing).\<close>

fun resolve_from ::
  "(jsstring \<Rightarrow> jsstring \<times> bool) \<Rightarrow> resolvedLabel option \<Rightarrow> page list \<Rightarrow> resolvedLabel list" where
  "resolve_from classify previousResolved [] = []"
| "resolve_from classify previousResolved (pg # pgs) =
     (let r = resolve classify pg previousResolved
      in r # resolve_from classify (Some r) pgs)"

text \<open>Modelled from the spec: the input of section 6, one optional text per page, numbered
  from 1 (the extraction loop of \<^verbatim>\<open>pdf-splitter.js\<close> is missing).\<close>

definition number_pages :: "jsstring option list \<Rightarrow> page list" where
  "number_pages raws =
     map (\<lambda>(i, raw). \<lparr>page_index = i, rawText = raw\<rparr>) (zip [1..int (length raws)] raws)"

text \<open>Modelled from the spec: the split that a page opens (section 4.3, missing with
  \<^verbatim>\<open>pdf-splitter.js\<close>): it has the instrument of the page's label and that page alone.\<close>

definition new_split :: "resolvedLabel \<Rightarrow> split" where
  "new_split l =
     \<lparr>instrument = resolved_instrument l, startPage = pageIndex l, endPage = pageIndex l,
      pages = [pageIndex l]\<rparr>"

text \<open>Modelled from the spec: the single left-to-right pass of section 4.3 (missing with
  \<^verbatim>\<open>pdf-splitter.js\<close>), with the split being accumulated as its state. A page whose
  instrument differs from the instrument of that split closes it and opens a new one; any
  other page is appended to it; the end of the input closes it.\<close>

fun segment_from :: "split \<Rightarrow> resolvedLabel list \<Rightarrow> split list" where
  "segment_from cur [] = [cur]"
| "segment_from cur (l # ls) =
     (if resolved_instrument l \<noteq> instrument cur
      then cur # segment_from (new_split l) ls
      else segment_from (cur\<lparr>endPage := pageIndex l, pages := pages cur @ [pageIndex l]\<rparr>) ls)"

text \<open>Modelled from the spec: \<open>segment(resolvedLabels)\<close> of section 4.3 (missing with
  \<^verbatim>\<open>pdf-splitter.js\<close>). The first page opens the first split; no page gives no split.\<close>

definition segment :: "resolvedLabel list \<Rightarrow> split list" where
  "segment ls = (case ls of [] \<Rightarrow> [] | l # ls' \<Rightarrow> segment_from (new_split l) ls')"

text \<open>Modelled from the spec: the build-time data flow of section 2, from the page texts
  through the resolver to the segmenter (\<^verbatim>\<open>analyzePDF\<close> itself is missing).\<close>

definition analyze :: "(jsstring \<Rightarrow> jsstring \<times> bool) \<Rightarrow> jsstring option list \<Rightarrow> split list" where
  "analyze classify raws = segment (resolve_from classify None (number_pages raws))"

text \<open>Four labels; the third differs from its neighbours in the case of one letter.\<close>

definition horn_labels :: "resolvedLabel list" where
  "horn_labels =
     [\<lparr>pageIndex = 1, resolved_instrument = js ''Horn'', matched = True\<rparr>,
      \<lparr>pageIndex = 2, resolved_instrument = js ''Horn'', matched = True\<rparr>,
      \<lparr>pageIndex = 3, resolved_instrument = js ''horn'', matched = False\<rparr>,
      \<lparr>pageIndex = 4, resolved_instrument = js ''Horn'', matched = True\<rparr>]"

text \<open>A catalog in which every text is its own canonical name.\<close>

definition verbatim :: "jsstring \<Rightarrow> jsstring \<times> bool" where
  "verbatim raw = (raw, True)"

section \<open>Split objects and pending regenerations\<close>

text \<open>
  In the section on the edit session the handlers are followed one after the other, each
  with its regeneration run to the end, and an output carries a copy of its split. That
  is all the split list needs: the handlers write it before their first \<^verbatim>\<open>await\<close>, and regeneration never
  writes it. The output list needs more. \<^verbatim>\<open>regeneratePDFForSplit\<close> is suspended at its
  \<^verbatim>\<open>await\<close>s, other handlers run meanwhile, and it then writes \<^verbatim>\<open>generatedPDFs[index]\<close> at
  the index it was called with, reading the split object it took from the array at its
  start. So this section has the split objects in a store, the two arrays holding
  references, and the regenerations that are under way.

  Every reference denotes an object; the handlers make no new split objects.
\<close>

type_synonym ref = nat

text \<open>An output \<^verbatim>\<open>{ filename, blob, split }\<close>, with \<open>split\<close> the reference to the live object.\<close>

record 'b pdf =
  pdf_filename :: jsstring
  pdf_blob :: 'b
  pdf_split :: ref

text \<open>
  A call of \<^verbatim>\<open>regeneratePDFForSplit(index)\<close> under way. It has taken
  \<^verbatim>\<open>split = detectedSplits[index]\<close>, which is \<^verbatim>\<open>undefined\<close> outside the array, and waits for
  the file and the library (\<open>Loading\<close>); or it has read \<^verbatim>\<open>split.pages\<close> and waits for the
  pages to be copied and the new document to be saved (\<open>Saving\<close>, with the zero-based page
  indices it read).
\<close>

datatype task = Loading int "ref option" | Saving int ref "int list"

record 'b async_session =
  heap :: "ref \<Rightarrow> split"
  detectedSplits_async :: "ref list"
  generatedPDFs_async :: "'b pdf option list"
  pending :: "task list"

text \<open>
  \<^verbatim>\<open>baseFilenameInput.value.trim() || currentFile.name.replace(/\.pdf$/i, '')\<close>: the empty
  string is falsy.
\<close>

definition baseFilename :: "'b env \<Rightarrow> jsstring" where
  "baseFilename env =
     (if trim (baseFilenameInput env) \<noteq> [] then trim (baseFilenameInput env)
      else strip_pdf (currentFileName env))"

text \<open>
  The part of \<^verbatim>\<open>regeneratePDFForSplit(index)\<close> before its first \<^verbatim>\<open>await\<close>: the split is taken
  from the array, and the call is under way.
\<close>

definition regeneratePDFForSplit_start :: "int \<Rightarrow> 'b async_session \<Rightarrow> 'b async_session" where
  "regeneratePDFForSplit_start index st =
     st\<lparr>pending := pending st @ [Loading index (js_index (detectedSplits_async st) index)]\<rparr>"

text \<open>
  A call under way goes on, from one \<^verbatim>\<open>await\<close> to the next that is followed by a read or a
  write of the state. From \<open>Loading\<close>: \<^verbatim>\<open>split.pages.map(p => p - 1)\<close> is read from the live
  object; on \<^verbatim>\<open>undefined\<close> this throws, and the \<^verbatim>\<open>catch\<close> ends the call. From \<open>Saving\<close>: the
  library has the bytes or has thrown (the \<^verbatim>\<open>catch\<close> ends the call); with the bytes, the
  file name is made from the base name and from \<^verbatim>\<open>split.instrument\<close> as the live object has
  it now, and \<^verbatim>\<open>generatedPDFs[index] = { filename, blob, split }\<close> is written at the index
  of the call. The result is the call if it is still under way, and the state.
\<close>

fun regeneratePDFForSplit_resume ::
  "'b env \<Rightarrow> task \<Rightarrow> 'b async_session \<Rightarrow> task option \<times> 'b async_session" where
  "regeneratePDFForSplit_resume env (Loading index None) st = (None, st)"
| "regeneratePDFForSplit_resume env (Loading index (Some r)) st =
     (Some (Saving index r (map (\<lambda>p. p - 1) (pages (heap st r)))), st)"
| "regeneratePDFForSplit_resume env (Saving index r indices) st =
     (case assemble env indices of
        None \<Rightarrow> (None, st)
      | Some bytes \<Rightarrow>
          (None,
           st\<lparr>generatedPDFs_async :=
                js_assign (generatedPDFs_async st) (nat index)
                  \<lparr>pdf_filename = generateFilename (baseFilename env) (instrument (heap st r)),
                   pdf_blob = bytes, pdf_split = r\<rparr>\<rparr>))"

text \<open>The event loop lets the \<open>k\<close>-th call under way go on.\<close>

definition advance :: "'b env \<Rightarrow> nat \<Rightarrow> 'b async_session \<Rightarrow> 'b async_session" where
  "advance env k st =
     (if k < length (pending st) then
        (case regeneratePDFForSplit_resume env (pending st ! k) st of
           (None, st') \<Rightarrow> st'\<lparr>pending := take k (pending st) @ drop (Suc k) (pending st)\<rparr>
         | (Some t, st') \<Rightarrow> st'\<lparr>pending := (pending st)[k := t]\<rparr>)
      else st)"

text \<open>
  The handlers up to their \<^verbatim>\<open>await\<close>, statement by statement on the store. What follows
  the \<^verbatim>\<open>await\<close> in a merge is \<^verbatim>\<open>displayPreview()\<close>, which writes to the page only; the rename
  handler does not wait for the regeneration it starts.
\<close>

definition handleInstrumentNameChange_async ::
  "int \<Rightarrow> jsstring \<Rightarrow> 'b async_session \<Rightarrow> js_error + 'b async_session" where
  "handleInstrumentNameChange_async index val st =
     (let newName = trim val
      in if newName \<noteq> [] then
           (case js_index (detectedSplits_async st) index of
              None \<Rightarrow> Inl TypeError
            | Some sp \<Rightarrow>
                Inr (regeneratePDFForSplit_start index
                  (st\<lparr>heap := (heap st)(sp := (heap st sp)\<lparr>instrument := newName\<rparr>)\<rparr>)))
         else Inr st)"

definition mergeWithPrevious_async :: "int \<Rightarrow> 'b async_session \<Rightarrow> js_error + 'b async_session" where
  "mergeWithPrevious_async index st =
     (if index = 0 then Inr st
      else
        (case js_index (detectedSplits_async st) (index - 1) of
           None \<Rightarrow> Inl TypeError
         | Some previousSplit \<Rightarrow>
             (case js_index (detectedSplits_async st) index of
                None \<Rightarrow> Inl TypeError
              | Some currentSplit \<Rightarrow>
                  (let h0 = heap st;
                       h1 = h0(previousSplit := (h0 previousSplit)
                              \<lparr>pages := pages (h0 previousSplit) @ pages (h0 currentSplit)\<rparr>);
                       h2 = h1(previousSplit := (h1 previousSplit)
                              \<lparr>endPage := endPage (h1 currentSplit)\<rparr>)
                   in Inr (regeneratePDFForSplit_start (index - 1)
                        (st\<lparr>heap := h2,
                            detectedSplits_async := splice1 index (detectedSplits_async st),
                            generatedPDFs_async := splice1 index (generatedPDFs_async st)\<rparr>))))))"

definition mergeWithNext_async :: "int \<Rightarrow> 'b async_session \<Rightarrow> js_error + 'b async_session" where
  "mergeWithNext_async index st =
     (if index = int (length (detectedSplits_async st)) - 1 then Inr st
      else
        (case js_index (detectedSplits_async st) index of
           None \<Rightarrow> Inl TypeError
         | Some currentSplit \<Rightarrow>
             (case js_index (detectedSplits_async st) (index + 1) of
                None \<Rightarrow> Inl TypeError
              | Some nextSplit \<Rightarrow>
                  (let h0 = heap st;
                       h1 = h0(currentSplit := (h0 currentSplit)
                              \<lparr>pages := pages (h0 currentSplit) @ pages (h0 nextSplit)\<rparr>);
                       h2 = h1(currentSplit := (h1 currentSplit)
                              \<lparr>endPage := endPage (h1 nextSplit)\<rparr>);
                       h3 = h2(currentSplit := (h2 currentSplit)
                              \<lparr>instrument := instrument (h2 nextSplit)\<rparr>)
                   in Inr (regeneratePDFForSplit_start index
                        (st\<lparr>heap := h3,
                            detectedSplits_async := splice1 (index + 1) (detectedSplits_async st),
                            generatedPDFs_async := splice1 (index + 1) (generatedPDFs_async st)\<rparr>))))))"





subsection \<open>Outputs in step with the splits\<close>



text \<open>The list without its entry at a position.\<close>

definition without :: "nat \<Rightarrow> 'a list \<Rightarrow> 'a list" where
  "without r xs = take r xs @ drop (Suc r) xs"


definition with_output :: "nat \<Rightarrow> 'a option \<Rightarrow> 'a option list \<Rightarrow> 'a option list" where
  "with_output k out outs = (case out of None \<Rightarrow> outs | Some p \<Rightarrow> outs[k := Some p])"



text \<open>The split list of the store as the list of values that the handlers above work on.\<close>

definition splits_of :: "'b async_session \<Rightarrow> split list" where
  "splits_of st = map (heap st) (detectedSplits_async st)"

section \<open>Properties of the file name\<close>

lemma replace_all_class: "replace_all (re_class P) [] s = filter (\<lambda>c. \<not> P c) s"
  by (induction s) (simp_all add: re_class_def)

lemma squeeze_member: "P c \<Longrightarrow> squeeze P (c # cs) = hyphen # squeeze P (dropWhile P cs)"
  by (induction cs arbitrary: c) simp_all

lemma squeeze_other: "\<not> P c \<Longrightarrow> squeeze P (c # cs) = c # squeeze P cs"
  by (cases cs) simp_all

lemma replace_all_class_plus: "replace_all (re_class_plus P) [hyphen] s = squeeze P s"
proof (induction s rule: length_induct)
  case (1 s)
  show ?case
  proof (cases s)
    case Nil
    then show ?thesis by (simp add: re_class_plus_def)
  next
    case (Cons c cs)
    show ?thesis
    proof (cases "P c")
      case True
      have shorter: "length (dropWhile P cs) < length s"
        using Cons length_dropWhile_le [of P cs] by simp
      have "replace_all (re_class_plus P) [hyphen] s =
              hyphen # replace_all (re_class_plus P) [hyphen] (dropWhile P cs)"
        using Cons True by (simp add: re_class_plus_def dropWhile_eq_drop)
      also have "\<dots> = hyphen # squeeze P (dropWhile P cs)"
        using 1 shorter by simp
      finally show ?thesis
        using Cons True by (simp add: squeeze_member)
    next
      case False
      have "replace_all (re_class_plus P) [hyphen] s =
              c # replace_all (re_class_plus P) [hyphen] cs"
        using Cons False by (simp add: re_class_plus_def)
      then show ?thesis
        using 1 Cons False by (simp add: squeeze_other)
    qed
  qed
qed

lemma js_hyphen: "js ''-'' = [hyphen]"
  by (simp add: js_def hyphen_def)

lemma js_empty: "js '''' = []"
  by (simp add: js_def)

text \<open>
  C1, as the program has it. For all strings \<open>base\<close> and \<open>name\<close> (the instrument),
  \<open>generateFilename base name\<close> is the string obtained from \<open>name\<close> by
  stripping every character that is not a word character of the regular expression
  (an ASCII letter, a digit or the underscore), white space or a hyphen, replacing each
  run of white space by a single hyphen, collapsing each run of hyphens into one, and
  concatenating base, hyphen, the sanitized instrument and \<open>.pdf\<close>. In particular
  \<open>MyBand\<close> and \<open>1st Horn (Eb)!\<close> give \<open>MyBand-1st-Horn-Eb.pdf\<close>.
\<close>

theorem generateFilename_rule:
  "generateFilename base name =
     deriveFilename_rule (\<lambda>c. is_word c \<or> is_space c \<or> c = hyphen) base name
   \<and> generateFilename (js ''MyBand'') (js ''1st Horn (Eb)!'') = js ''MyBand-1st-Horn-Eb.pdf''"
proof
  show "generateFilename base name =
     deriveFilename_rule (\<lambda>c. is_word c \<or> is_space c \<or> c = hyphen) base name"
    unfolding generateFilename_def deriveFilename_rule_def Let_def js_hyphen js_empty
    by (simp only: replace_all_class replace_all_class_plus not_not)
  show "generateFilename (js ''MyBand'') (js ''1st Horn (Eb)!'') = js ''MyBand-1st-Horn-Eb.pdf''"
    by code_simp
qed

text \<open>
  The rule at a name with runs of white space and of hyphens.
\<close>

theorem generateFilename_rule_witness:
  "generateFilename (js ''Band'') (js ''Solo  Cornet -- B_b'') =
     deriveFilename_rule (\<lambda>c. is_word c \<or> is_space c \<or> c = hyphen)
       (js ''Band'') (js ''Solo  Cornet -- B_b'')
   \<and> deriveFilename_rule (\<lambda>c. is_word c \<or> is_space c \<or> c = hyphen)
       (js ''Band'') (js ''Solo  Cornet -- B_b'') = js ''Band-Solo-Cornet-B_b.pdf''"
proof
  show "generateFilename (js ''Band'') (js ''Solo  Cornet -- B_b'') =
     deriveFilename_rule (\<lambda>c. is_word c \<or> is_space c \<or> c = hyphen)
       (js ''Band'') (js ''Solo  Cornet -- B_b'')"
    using generateFilename_rule [of "js ''Band''" "js ''Solo  Cornet -- B_b''"] by (rule conjunct1)
  show "deriveFilename_rule (\<lambda>c. is_word c \<or> is_space c \<or> c = hyphen)
       (js ''Band'') (js ''Solo  Cornet -- B_b'') = js ''Band-Solo-Cornet-B_b.pdf''"
    by code_simp
qed

text \<open>
  C1, as the specification words it, fails: the underscore is not alphanumeric, and the
  program keeps it. For the instrument \<open>E_flat\<close> the program gives \<open>MyBand-E_flat.pdf\<close>,
  the rule of the specification \<open>MyBand-Eflat.pdf\<close>.
\<close>

theorem generateFilename_underscore:
  "generateFilename (js ''MyBand'') (js ''E_flat'') = js ''MyBand-E_flat.pdf'' \<and>
   deriveFilename (js ''MyBand'') (js ''E_flat'') = js ''MyBand-Eflat.pdf'' \<and>
   generateFilename (js ''MyBand'') (js ''E_flat'') \<noteq> deriveFilename (js ''MyBand'') (js ''E_flat'')"
  by code_simp

text \<open>The underscore is the only difference: without one in the instrument, the program
  follows the rule as the specification words it.\<close>

lemma generateFilename_without_underscore:
  assumes "\<forall>c \<in> set name. c \<noteq> 0x5F"
  shows "generateFilename base name = deriveFilename base name"
proof -
  have "filter (\<lambda>c. is_word c \<or> is_space c \<or> c = hyphen) name =
        filter (\<lambda>c. is_alnum c \<or> is_space c \<or> c = hyphen) name"
    using assms by (intro filter_cong refl) (auto simp: is_word_def is_alnum_def)
  then show ?thesis
    unfolding generateFilename_def deriveFilename_def deriveFilename_rule_def Let_def
      js_hyphen js_empty
    by (simp only: replace_all_class replace_all_class_plus not_not)
qed

section \<open>Properties of the edit session\<close>

subsection \<open>Array primitives and regeneration\<close>

lemma splice1_in:
  "0 \<le> i \<Longrightarrow> i \<le> int (length xs) \<Longrightarrow> splice1 i xs = take (nat i) xs @ drop (Suc (nat i)) xs"
  by (simp add: splice1_def Let_def min_def)

lemma take_update_last:
  "i < length xs \<Longrightarrow> take (Suc i) (xs[i := m]) = take i xs @ [m]"
  by (simp add: take_Suc_conv_app_nth)

lemma take_update_before:
  "0 < i \<Longrightarrow> i \<le> length xs \<Longrightarrow> take i (xs[i - Suc 0 := m]) = take (i - Suc 0) xs @ [m]"
  using take_update_last [of "i - Suc 0" xs m] by simp

lemma detectedSplits_regenerate [simp]:
  "detectedSplits (regeneratePDFForSplit env k st) = detectedSplits st"
  by (simp add: regeneratePDFForSplit_def Let_def split: option.splits)

subsection \<open>The two merges at a valid index\<close>

text \<open>The split that \<^verbatim>\<open>mergeWithPrevious\<close> leaves at \<open>index - 1\<close>.\<close>

lemma mergeWithPrevious_valid:
  assumes "0 < index" and "index < int (length (detectedSplits st))"
  shows "mergeWithPrevious env index st =
           Inr (regeneratePDFForSplit env (index - 1)
             (st\<lparr>detectedSplits :=
                   take (nat index - 1) (detectedSplits st) @
                   (detectedSplits st ! (nat index - 1))
                     \<lparr>pages := pages (detectedSplits st ! (nat index - 1)) @
                               pages (detectedSplits st ! nat index),
                      endPage := endPage (detectedSplits st ! nat index)\<rparr> #
                   drop (Suc (nat index)) (detectedSplits st),
                 generatedPDFs := splice1 index (generatedPDFs st)\<rparr>))"
proof -
  define i where "i = nat index"
  have i: "0 < i" "i < length (detectedSplits st)" "index = int i"
    using assms by (simp_all add: i_def)
  have prev: "js_index (detectedSplits st) (index - 1) = Some (detectedSplits st ! (i - 1))"
    using i by (simp add: js_index_def nat_diff_distrib')
  have cur: "js_index (detectedSplits st) index = Some (detectedSplits st ! i)"
    using i by (simp add: js_index_def)
  show ?thesis
    using i prev cur
    by (simp add: mergeWithPrevious_def Let_def splice1_in take_update_before nat_diff_distrib'
        flip: i_def)
qed

lemma mergeWithNext_valid:
  assumes "0 \<le> index" and "index < int (length (detectedSplits st)) - 1"
  shows "mergeWithNext env index st =
           Inr (regeneratePDFForSplit env index
             (st\<lparr>detectedSplits :=
                   take (nat index) (detectedSplits st) @
                   (detectedSplits st ! nat index)
                     \<lparr>pages := pages (detectedSplits st ! nat index) @
                               pages (detectedSplits st ! Suc (nat index)),
                      endPage := endPage (detectedSplits st ! Suc (nat index)),
                      instrument := instrument (detectedSplits st ! Suc (nat index))\<rparr> #
                   drop (Suc (Suc (nat index))) (detectedSplits st),
                 generatedPDFs := splice1 (index + 1) (generatedPDFs st)\<rparr>))"
proof -
  define i where "i = nat index"
  have i: "Suc i < length (detectedSplits st)" "index = int i"
    using assms by (simp_all add: i_def)
  have cur: "js_index (detectedSplits st) index = Some (detectedSplits st ! i)"
    using i by (simp add: js_index_def)
  have nxt: "js_index (detectedSplits st) (index + 1) = Some (detectedSplits st ! Suc i)"
    using i by (simp add: js_index_def nat_add_distrib)
  have ne: "index \<noteq> int (length (detectedSplits st)) - 1"
    using assms by simp
  show ?thesis
    using i cur nxt ne
    by (simp add: mergeWithNext_def Let_def splice1_in take_update_last nat_add_distrib
        flip: i_def)
qed

text \<open>Any other index that is not the boundary makes the merge throw.\<close>

lemma mergeWithPrevious_out_of_range:
  "index \<noteq> 0 \<Longrightarrow> \<not> (0 < index \<and> index < int (length (detectedSplits st))) \<Longrightarrow>
   mergeWithPrevious env index st = Inl TypeError"
  by (auto simp: mergeWithPrevious_def js_index_def split: option.splits)

lemma mergeWithNext_out_of_range:
  "index \<noteq> int (length (detectedSplits st)) - 1 \<Longrightarrow>
   \<not> (0 \<le> index \<and> index < int (length (detectedSplits st)) - 1) \<Longrightarrow>
   mergeWithNext env index st = Inl TypeError"
  by (auto simp: mergeWithNext_def js_index_def split: option.splits)

text \<open>
  C2. For a split list and an index \<open>index > 0\<close> of it, \<^verbatim>\<open>mergeWithPrevious(index)\<close>
  completes and leaves one split less. The split at \<open>index - 1\<close> has the instrument the
  previous split had, its pages are the pages of the old split at \<open>index - 1\<close> followed by
  those of the old split at \<open>index\<close>, and its \<open>endPage\<close> is the old \<open>endPage\<close> at \<open>index\<close>.
  The splits before \<open>index - 1\<close> stay, and behind the merged split come the old splits from
  \<open>index + 1\<close> on: the split at \<open>index\<close> is gone. Merging the second of the two cornet
  parts upwards leaves the single split Cornet 1 with pages 1 to 4.
\<close>

theorem mergeWithPrevious_merges:
  assumes "0 < index" and "index < int (length (detectedSplits st))"
  shows "(\<exists>st'. mergeWithPrevious env index st = Inr st' \<and>
            length (detectedSplits st') = length (detectedSplits st) - 1 \<and>
            instrument (detectedSplits st' ! nat (index - 1)) =
              instrument (detectedSplits st ! nat (index - 1)) \<and>
            pages (detectedSplits st' ! nat (index - 1)) =
              pages (detectedSplits st ! nat (index - 1)) @ pages (detectedSplits st ! nat index) \<and>
            endPage (detectedSplits st' ! nat (index - 1)) = endPage (detectedSplits st ! nat index) \<and>
            take (nat (index - 1)) (detectedSplits st') = take (nat (index - 1)) (detectedSplits st) \<and>
            drop (nat index) (detectedSplits st') = drop (Suc (nat index)) (detectedSplits st))
       \<and> (\<forall>outputs. splits_after
             (mergeWithPrevious env 1 \<lparr>detectedSplits = cornets, generatedPDFs = outputs\<rparr>) =
           Some [\<lparr>instrument = js ''Cornet 1'', startPage = 1, endPage = 4, pages = [1, 2, 3, 4]\<rparr>])"
proof
  define i where "i = nat index"
  have i: "0 < i" "i < length (detectedSplits st)" "nat (index - 1) = i - 1"
    using assms by (simp_all add: i_def nat_diff_distrib')
  have len: "length (take (i - 1) (detectedSplits st)) = i - 1"
    using i by simp
  have drp: "drop i (take (i - 1) (detectedSplits st) @ m # drop (Suc i) (detectedSplits st)) =
             drop (Suc i) (detectedSplits st)" for m
    using i by simp
  show "\<exists>st'. mergeWithPrevious env index st = Inr st' \<and>
            length (detectedSplits st') = length (detectedSplits st) - 1 \<and>
            instrument (detectedSplits st' ! nat (index - 1)) =
              instrument (detectedSplits st ! nat (index - 1)) \<and>
            pages (detectedSplits st' ! nat (index - 1)) =
              pages (detectedSplits st ! nat (index - 1)) @ pages (detectedSplits st ! nat index) \<and>
            endPage (detectedSplits st' ! nat (index - 1)) = endPage (detectedSplits st ! nat index) \<and>
            take (nat (index - 1)) (detectedSplits st') = take (nat (index - 1)) (detectedSplits st) \<and>
            drop (nat index) (detectedSplits st') = drop (Suc (nat index)) (detectedSplits st)"
    unfolding mergeWithPrevious_valid [OF assms, of env] i(3) i_def [symmetric]
    using i(1,2) by (simp add: nth_append drp)
next
  show "\<forall>outputs. splits_after
             (mergeWithPrevious env 1 \<lparr>detectedSplits = cornets, generatedPDFs = outputs\<rparr>) =
           Some [\<lparr>instrument = js ''Cornet 1'', startPage = 1, endPage = 4, pages = [1, 2, 3, 4]\<rparr>]"
    by (simp add: mergeWithPrevious_def js_index_def cornets_def splice1_def splits_after_def Let_def)
qed

theorem mergeWithPrevious_merges_witness:
  "(0::int) < 1 \<and> 1 < int (length (detectedSplits band_session)) \<and>
   (\<exists>st'. mergeWithPrevious band_env 1 band_session = Inr st' \<and>
      length (detectedSplits st') = 1 \<and>
      instrument (detectedSplits st' ! 0) = js ''Cornet 1'' \<and>
      pages (detectedSplits st' ! 0) = [1, 2, 3, 4] \<and>
      endPage (detectedSplits st' ! 0) = 4)"
proof -
  have h1: "(0::int) < 1" by simp
  have h2: "1 < int (length (detectedSplits band_session))"
    by (simp add: band_session_def cornets_def)
  from mergeWithPrevious_merges [OF h1 h2, of band_env]
  obtain st' where st': "mergeWithPrevious band_env 1 band_session = Inr st'"
      "length (detectedSplits st') = length (detectedSplits band_session) - 1"
      "instrument (detectedSplits st' ! nat (1 - 1)) =
         instrument (detectedSplits band_session ! nat (1 - 1))"
      "pages (detectedSplits st' ! nat (1 - 1)) =
         pages (detectedSplits band_session ! nat (1 - 1)) @ pages (detectedSplits band_session ! nat 1)"
      "endPage (detectedSplits st' ! nat (1 - 1)) = endPage (detectedSplits band_session ! nat 1)"
    by blast
  have "length (detectedSplits st') = 1"
    "instrument (detectedSplits st' ! 0) = js ''Cornet 1''"
    "pages (detectedSplits st' ! 0) = [1, 2, 3, 4]"
    "endPage (detectedSplits st' ! 0) = 4"
    using st'(2-5) by (simp_all add: band_session_def cornets_def)
  with st'(1) h1 h2 show ?thesis by blast
qed

text \<open>
  C3. For a split list and an index \<open>index\<close> of it strictly below the last index,
  \<^verbatim>\<open>mergeWithNext(index)\<close> completes and leaves one split less. The split at \<open>index\<close> has
  the instrument of the old split at \<open>index + 1\<close>, its pages are the pages of the old split at
  \<open>index\<close> followed by those of the old split at \<open>index + 1\<close>, and its \<open>endPage\<close> is the old
  \<open>endPage\<close> at \<open>index + 1\<close>. The splits before \<open>index\<close> stay, and behind the merged split
  come the old splits from \<open>index + 2\<close> on: the split at \<open>index + 1\<close> is gone. Merging the
  first of the two cornet parts downwards leaves the single split Cornet 2 with pages 1
  to 4.
\<close>

theorem mergeWithNext_merges:
  assumes "0 \<le> index" and "index < int (length (detectedSplits st)) - 1"
  shows "(\<exists>st'. mergeWithNext env index st = Inr st' \<and>
            length (detectedSplits st') = length (detectedSplits st) - 1 \<and>
            instrument (detectedSplits st' ! nat index) =
              instrument (detectedSplits st ! Suc (nat index)) \<and>
            pages (detectedSplits st' ! nat index) =
              pages (detectedSplits st ! nat index) @ pages (detectedSplits st ! Suc (nat index)) \<and>
            endPage (detectedSplits st' ! nat index) = endPage (detectedSplits st ! Suc (nat index)) \<and>
            take (nat index) (detectedSplits st') = take (nat index) (detectedSplits st) \<and>
            drop (Suc (nat index)) (detectedSplits st') =
              drop (Suc (Suc (nat index))) (detectedSplits st))
       \<and> (\<forall>outputs. splits_after
             (mergeWithNext env 0 \<lparr>detectedSplits = cornets, generatedPDFs = outputs\<rparr>) =
           Some [\<lparr>instrument = js ''Cornet 2'', startPage = 1, endPage = 4, pages = [1, 2, 3, 4]\<rparr>])"
proof
  define i where "i = nat index"
  have i: "Suc i < length (detectedSplits st)"
    using assms by (simp add: i_def)
  have drp: "drop (Suc i) (take i (detectedSplits st) @ m # drop (Suc (Suc i)) (detectedSplits st)) =
             drop (Suc (Suc i)) (detectedSplits st)" for m
    using i by simp
  show "\<exists>st'. mergeWithNext env index st = Inr st' \<and>
            length (detectedSplits st') = length (detectedSplits st) - 1 \<and>
            instrument (detectedSplits st' ! nat index) =
              instrument (detectedSplits st ! Suc (nat index)) \<and>
            pages (detectedSplits st' ! nat index) =
              pages (detectedSplits st ! nat index) @ pages (detectedSplits st ! Suc (nat index)) \<and>
            endPage (detectedSplits st' ! nat index) = endPage (detectedSplits st ! Suc (nat index)) \<and>
            take (nat index) (detectedSplits st') = take (nat index) (detectedSplits st) \<and>
            drop (Suc (nat index)) (detectedSplits st') =
              drop (Suc (Suc (nat index))) (detectedSplits st)"
    unfolding mergeWithNext_valid [OF assms, of env] i_def [symmetric]
    using i by (simp add: nth_append drp)
next
  show "\<forall>outputs. splits_after
             (mergeWithNext env 0 \<lparr>detectedSplits = cornets, generatedPDFs = outputs\<rparr>) =
           Some [\<lparr>instrument = js ''Cornet 2'', startPage = 1, endPage = 4, pages = [1, 2, 3, 4]\<rparr>]"
    by (simp add: mergeWithNext_def js_index_def cornets_def splice1_def splits_after_def Let_def)
qed

theorem mergeWithNext_merges_witness:
  "(0::int) \<le> 0 \<and> 0 < int (length (detectedSplits band_session)) - 1 \<and>
   (\<exists>st'. mergeWithNext band_env 0 band_session = Inr st' \<and>
      length (detectedSplits st') = 1 \<and>
      instrument (detectedSplits st' ! 0) = js ''Cornet 2'' \<and>
      pages (detectedSplits st' ! 0) = [1, 2, 3, 4] \<and>
      endPage (detectedSplits st' ! 0) = 4)"
proof -
  have h1: "(0::int) \<le> 0" by simp
  have h2: "0 < int (length (detectedSplits band_session)) - 1"
    by (simp add: band_session_def cornets_def)
  from mergeWithNext_merges [OF h1 h2, of band_env]
  obtain st' where st': "mergeWithNext band_env 0 band_session = Inr st'"
      "length (detectedSplits st') = length (detectedSplits band_session) - 1"
      "instrument (detectedSplits st' ! nat 0) =
         instrument (detectedSplits band_session ! Suc (nat 0))"
      "pages (detectedSplits st' ! nat 0) =
         pages (detectedSplits band_session ! nat 0) @ pages (detectedSplits band_session ! Suc (nat 0))"
      "endPage (detectedSplits st' ! nat 0) = endPage (detectedSplits band_session ! Suc (nat 0))"
    by blast
  have "length (detectedSplits st') = 1"
    "instrument (detectedSplits st' ! 0) = js ''Cornet 2''"
    "pages (detectedSplits st' ! 0) = [1, 2, 3, 4]"
    "endPage (detectedSplits st' ! 0) = 4"
    using st'(2-5) by (simp_all add: band_session_def cornets_def)
  with st'(1) h1 h2 show ?thesis by blast
qed

subsection \<open>The merges at the boundary\<close>

text \<open>
  C5, as the program has it. \<^verbatim>\<open>mergeWithPrevious(0)\<close> and \<^verbatim>\<open>mergeWithNext(lastIndex)\<close>
  leave the session exactly as it was, the split list and the output list, and complete
  as an accepted merge does: the promise is fulfilled, nothing tells the caller
  that the request was refused.
\<close>

theorem merge_boundary_noop:
  "mergeWithPrevious env 0 st = Inr st \<and>
   mergeWithNext env (int (length (detectedSplits st)) - 1) st = Inr st"
  by (simp add: mergeWithPrevious_def mergeWithNext_def)

theorem merge_boundary_noop_witness:
  "mergeWithPrevious band_env 0 band_session = Inr band_session \<and>
   mergeWithNext band_env 1 band_session = Inr band_session"
proof -
  have "int (length (detectedSplits band_session)) - 1 = 1"
    by (simp add: band_session_def cornets_def)
  with merge_boundary_noop [of band_env band_session] show ?thesis by simp
qed

text \<open>
  C5, as the specification words it, fails: at the boundary of the two cornet parts
  neither merge reports a rejection.
\<close>

theorem merge_boundary_unreported:
  "\<not> rejection_reported (mergeWithPrevious band_env 0 band_session) \<and>
   \<not> rejection_reported (mergeWithNext band_env 1 band_session)"
  by (simp add: rejection_reported_def mergeWithPrevious_def mergeWithNext_def
      band_session_def cornets_def)

subsection \<open>Renaming\<close>

lemma map_update_same: "f y = f (xs ! i) \<Longrightarrow> map f (xs[i := y]) = map f xs"
  by (metis list_update_id map_update)

text \<open>
  C6, as the program has it. For a split list, an index of it and a string: if the string
  is not empty after trimming, the handler completes and sets the instrument of the split
  at the index to the trimmed string, and the pages, \<open>startPage\<close> and \<open>endPage\<close> of every
  split stay as they were; if the string trims to the empty string, the session stays as
  it was, with the previous name.
\<close>

theorem rename_trimmed:
  assumes "0 \<le> index" and "index < int (length (detectedSplits st))"
  shows "(trim val \<noteq> [] \<longrightarrow>
            (\<exists>st'. handleInstrumentNameChange env index val st = Inr st' \<and>
               detectedSplits st' =
                 (detectedSplits st)
                   [nat index := (detectedSplits st ! nat index)\<lparr>instrument := trim val\<rparr>] \<and>
               instrument (detectedSplits st' ! nat index) = trim val \<and>
               map pages (detectedSplits st') = map pages (detectedSplits st) \<and>
               map startPage (detectedSplits st') = map startPage (detectedSplits st) \<and>
               map endPage (detectedSplits st') = map endPage (detectedSplits st))) \<and>
         (trim val = [] \<longrightarrow> handleInstrumentNameChange env index val st = Inr st)"
proof -
  have cur: "js_index (detectedSplits st) index = Some (detectedSplits st ! nat index)"
    using assms by (simp add: js_index_def)
  have i: "nat index < length (detectedSplits st)"
    using assms by simp
  show ?thesis
    using cur i by (simp add: handleInstrumentNameChange_def Let_def map_update_same)
qed

theorem rename_trimmed_witness:
  "(0::int) \<le> 0 \<and> 0 < int (length (detectedSplits band_session)) \<and>
   trim (js '' Tuba '') \<noteq> [] \<and>
   (\<exists>st'. handleInstrumentNameChange band_env 0 (js '' Tuba '') band_session = Inr st' \<and>
      instrument (detectedSplits st' ! 0) = js ''Tuba'' \<and>
      map pages (detectedSplits st') = [[1, 2], [3, 4]]) \<and>
   trim (js ''  '') = [] \<and>
   handleInstrumentNameChange band_env 0 (js ''  '') band_session = Inr band_session"
proof -
  have h1: "(0::int) \<le> 0" by simp
  have h2: "0 < int (length (detectedSplits band_session))"
    by (simp add: band_session_def cornets_def)
  have t1: "trim (js '' Tuba '') = js ''Tuba''" by code_simp
  have t2: "trim (js ''  '') = []" by code_simp
  have ne: "js ''Tuba'' \<noteq> []" by (simp add: js_def)
  from rename_trimmed [OF h1 h2, of "js '' Tuba ''" band_env] t1 ne
  obtain st' where st': "handleInstrumentNameChange band_env 0 (js '' Tuba '') band_session = Inr st'"
      "instrument (detectedSplits st' ! nat 0) = js ''Tuba''"
      "map pages (detectedSplits st') = map pages (detectedSplits band_session)"
    by auto
  have "map pages (detectedSplits band_session) = [[1, 2], [3, 4]]"
    by (simp add: band_session_def cornets_def)
  with st' have a: "\<exists>st'. handleInstrumentNameChange band_env 0 (js '' Tuba '') band_session = Inr st' \<and>
      instrument (detectedSplits st' ! 0) = js ''Tuba'' \<and>
      map pages (detectedSplits st') = [[1, 2], [3, 4]]"
    by auto
  from rename_trimmed [OF h1 h2, of "js ''  ''" band_env] t2
  have b: "handleInstrumentNameChange band_env 0 (js ''  '') band_session = Inr band_session"
    by simp
  from h1 h2 t1 t2 ne a b show ?thesis by simp
qed

text \<open>
  C6, as the specification words it, fails: the name stored is the trimmed one. Renaming
  the first cornet part to \<open>Tuba\<close> with a blank on either side stores \<open>Tuba\<close>, not the
  string that was given.
\<close>

theorem rename_not_verbatim:
  "trim (js '' Tuba '') \<noteq> [] \<and>
   map_option (map instrument)
     (splits_after (handleInstrumentNameChange band_env 0 (js '' Tuba '') band_session)) =
     Some [js ''Tuba'', js ''Cornet 2''] \<and>
   js ''Tuba'' \<noteq> js '' Tuba ''"
  by code_simp

subsection \<open>What a merge leaves alone\<close>

text \<open>Removing the entry at \<open>r\<close> shifts the entries behind it by one.\<close>

lemma nth_removed:
  "r \<le> length xs \<Longrightarrow> Suc j < length xs \<Longrightarrow>
   (take r xs @ drop (Suc r) xs) ! j = xs ! (if j < r then j else Suc j)"
  by (simp add: nth_append min_def)

lemma nth_merged:
  assumes "Suc k < length xs" and "j \<noteq> k" and "Suc j < length xs"
  shows "(take k xs @ m # drop (Suc (Suc k)) xs) ! j = xs ! (if j < k then j else Suc j)"
proof -
  have "take k xs @ m # drop (Suc (Suc k)) xs =
        take (Suc k) (xs[k := m]) @ drop (Suc (Suc k)) (xs[k := m])"
    using assms(1) by (simp add: take_update_last)
  also have "\<dots> ! j = (xs[k := m]) ! (if j < Suc k then j else Suc j)"
    using assms(1,3) by (intro nth_removed) simp_all
  also have "\<dots> = xs ! (if j < k then j else Suc j)"
    using assms(2) by auto
  finally show ?thesis .
qed

text \<open>
  C9. At a valid index each merge removes exactly one split, and every split other than
  the merged one is a split of the old list, unchanged in all its fields: the one at the
  same position before the merged split, the one a position further behind it.
\<close>

theorem merge_frame:
  "(0 < index \<and> index < int (length (detectedSplits st)) \<longrightarrow>
      (\<exists>st'. mergeWithPrevious env index st = Inr st' \<and>
         Suc (length (detectedSplits st')) = length (detectedSplits st) \<and>
         (\<forall>j < length (detectedSplits st'). j \<noteq> nat index - 1 \<longrightarrow>
            detectedSplits st' ! j = detectedSplits st ! (if j < nat index then j else Suc j)))) \<and>
   (0 \<le> index \<and> index < int (length (detectedSplits st)) - 1 \<longrightarrow>
      (\<exists>st'. mergeWithNext env index st = Inr st' \<and>
         Suc (length (detectedSplits st')) = length (detectedSplits st) \<and>
         (\<forall>j < length (detectedSplits st'). j \<noteq> nat index \<longrightarrow>
            detectedSplits st' ! j = detectedSplits st ! (if j < nat index then j else Suc j))))"
proof (intro conjI impI)
  assume a: "0 < index \<and> index < int (length (detectedSplits st))"
  define k where "k = nat index - 1"
  have k: "Suc k < length (detectedSplits st)" "nat index = Suc k"
    using a by (auto simp: k_def nat_less_iff)
  from mergeWithPrevious_valid [of index st env] a
  obtain st' m where st': "mergeWithPrevious env index st = Inr st'"
    and ds': "detectedSplits st' =
      take k (detectedSplits st) @ m # drop (Suc (Suc k)) (detectedSplits st)"
    by (simp add: k)
  have len: "Suc (length (detectedSplits st')) = length (detectedSplits st)"
    using k(1) by (simp add: ds')
  have "detectedSplits st' ! j = detectedSplits st ! (if j < nat index then j else Suc j)"
    if "j < length (detectedSplits st')" "j \<noteq> k" for j
  proof -
    have "detectedSplits st' ! j = detectedSplits st ! (if j < k then j else Suc j)"
      unfolding ds' using k(1) that len by (intro nth_merged) simp_all
    with that(2) show ?thesis by (simp add: k(2) less_Suc_eq)
  qed
  with st' len show "\<exists>st'. mergeWithPrevious env index st = Inr st' \<and>
         Suc (length (detectedSplits st')) = length (detectedSplits st) \<and>
         (\<forall>j < length (detectedSplits st'). j \<noteq> nat index - 1 \<longrightarrow>
            detectedSplits st' ! j = detectedSplits st ! (if j < nat index then j else Suc j))"
    unfolding k_def by blast
next
  assume a: "0 \<le> index \<and> index < int (length (detectedSplits st)) - 1"
  define k where "k = nat index"
  have k: "Suc k < length (detectedSplits st)"
    using a by (auto simp: k_def)
  from mergeWithNext_valid [of index st env] a
  obtain st' m where st': "mergeWithNext env index st = Inr st'"
    and ds': "detectedSplits st' =
      take k (detectedSplits st) @ m # drop (Suc (Suc k)) (detectedSplits st)"
    by (simp add: k_def)
  have len: "Suc (length (detectedSplits st')) = length (detectedSplits st)"
    using k by (simp add: ds')
  have "detectedSplits st' ! j = detectedSplits st ! (if j < k then j else Suc j)"
    if "j < length (detectedSplits st')" "j \<noteq> k" for j
    unfolding ds' using k that len by (intro nth_merged) simp_all
  with st' len show "\<exists>st'. mergeWithNext env index st = Inr st' \<and>
         Suc (length (detectedSplits st')) = length (detectedSplits st) \<and>
         (\<forall>j < length (detectedSplits st'). j \<noteq> nat index \<longrightarrow>
            detectedSplits st' ! j = detectedSplits st ! (if j < nat index then j else Suc j))"
    unfolding k_def by blast
qed

text \<open>Three parts, the middle one merged upwards and the first one merged downwards: the
  third part is left as it was.\<close>

theorem merge_frame_witness:
  "(\<exists>st'. mergeWithPrevious band_env 1 trio_session = Inr st' \<and>
      length (detectedSplits st') = 2 \<and> detectedSplits st' ! 1 = trio ! 2) \<and>
   (\<exists>st'. mergeWithNext band_env 0 trio_session = Inr st' \<and>
      length (detectedSplits st') = 2 \<and> detectedSplits st' ! 1 = trio ! 2)"
proof -
  have len: "length (detectedSplits trio_session) = 3" and ds: "detectedSplits trio_session = trio"
    by (simp_all add: trio_session_def trio_def)
  have p: "0 < (1::int) \<and> 1 < int (length (detectedSplits trio_session))"
    and n: "0 \<le> (0::int) \<and> 0 < int (length (detectedSplits trio_session)) - 1"
    using len by simp_all
  from merge_frame [of 1 trio_session band_env] p
  obtain st1 where st1: "mergeWithPrevious band_env 1 trio_session = Inr st1"
      "Suc (length (detectedSplits st1)) = length (detectedSplits trio_session)"
      "\<forall>j < length (detectedSplits st1). j \<noteq> nat 1 - 1 \<longrightarrow>
         detectedSplits st1 ! j = detectedSplits trio_session ! (if j < nat 1 then j else Suc j)"
    by blast
  from st1(2) len have l1: "length (detectedSplits st1) = 2" by simp
  with st1(3) have "detectedSplits st1 ! 1 = detectedSplits trio_session ! 2"
    by (simp add: numeral_2_eq_2)
  with st1(1) l1 ds have a: "\<exists>st'. mergeWithPrevious band_env 1 trio_session = Inr st' \<and>
      length (detectedSplits st') = 2 \<and> detectedSplits st' ! 1 = trio ! 2"
    by simp
  from merge_frame [of 0 trio_session band_env] n
  obtain st2 where st2: "mergeWithNext band_env 0 trio_session = Inr st2"
      "Suc (length (detectedSplits st2)) = length (detectedSplits trio_session)"
      "\<forall>j < length (detectedSplits st2). j \<noteq> nat 0 \<longrightarrow>
         detectedSplits st2 ! j = detectedSplits trio_session ! (if j < nat 0 then j else Suc j)"
    by blast
  from st2(2) len have l2: "length (detectedSplits st2) = 2" by simp
  with st2(3) have "detectedSplits st2 ! 1 = detectedSplits trio_session ! 2"
    by (simp add: numeral_2_eq_2)
  with st2(1) l2 ds have b: "\<exists>st'. mergeWithNext band_env 0 trio_session = Inr st' \<and>
      length (detectedSplits st') = 2 \<and> detectedSplits st' ! 1 = trio ! 2"
    by simp
  from a b show ?thesis ..
qed

subsection \<open>Merging keeps the coverage\<close>

lemma successively_upto: "successively (\<lambda>p q. q = p + 1) [i..j]"
proof (induction i j rule: upto.induct)
  case (1 i j)
  show ?case
  proof (cases "i \<le> j")
    case True
    then have "[i..j] = i # [i + 1..j]" by (rule upto_rec1)
    moreover have "[i + 1..j] \<noteq> [] \<Longrightarrow> hd [i + 1..j] = i + 1"
      by (simp add: upto_rec1)
    ultimately show ?thesis
      using 1 True by (auto simp: successively_Cons)
  next
    case False
    then show ?thesis by simp
  qed
qed

text \<open>A stretch of \<open>[1..n]\<close> is contiguous and increasing.\<close>

lemma stretch_of_upto:
  assumes "as @ bs @ cs = [i..j]"
  shows "successively (\<lambda>p q. q = p + 1) bs" and "sorted_wrt (<) bs"
proof -
  have "successively (\<lambda>p q. q = p + 1) (as @ bs @ cs)" "sorted_wrt (<) (as @ bs @ cs)"
    unfolding assms by (rule successively_upto, rule sorted_wrt_upto)
  then show "successively (\<lambda>p q. q = p + 1) bs" and "sorted_wrt (<) bs"
    by (simp_all add: successively_append_iff sorted_wrt_append)
qed

lemma merged_coverage:
  assumes cov: "coverage n xs" and k: "Suc k < length xs"
    and pm: "pages m = pages (xs ! k) @ pages (xs ! Suc k)"
    and sm: "startPage m = startPage (xs ! k)"
    and em: "endPage m = endPage (xs ! Suc k)"
  shows "coverage n (take k xs @ m # drop (Suc (Suc k)) xs)"
proof -
  have xs: "xs = take k xs @ xs ! k # xs ! Suc k # drop (Suc (Suc k)) xs"
    using k by (metis Cons_nth_drop_Suc Suc_lessD append_take_drop_id)
  have all: "\<forall>s \<in> set xs. split_ok s" and cat: "concat (map pages xs) = [1..n]"
    using cov by (simp_all add: coverage_def list_all_iff)
  have okk: "split_ok (xs ! k)" and oks: "split_ok (xs ! Suc k)"
    using all k by simp_all
  have "concat (map pages (take k xs)) @ pages m @ concat (map pages (drop (Suc (Suc k)) xs)) =
        concat (map pages (take k xs @ xs ! k # xs ! Suc k # drop (Suc (Suc k)) xs))"
    by (simp add: pm)
  also have "\<dots> = [1..n]"
    using cat xs by simp
  finally have whole:
    "concat (map pages (take k xs)) @ pages m @ concat (map pages (drop (Suc (Suc k)) xs)) = [1..n]" .
  have "split_ok m"
    unfolding split_ok_def
  proof (intro conjI)
    show "pages m \<noteq> []"
      using okk by (simp add: pm split_ok_def)
    show "sorted_wrt (<) (pages m)" and "successively (\<lambda>p q. q = p + 1) (pages m)"
      using stretch_of_upto [OF whole] by simp_all
    show "startPage m = hd (pages m)"
      using okk by (simp add: pm sm split_ok_def)
    show "endPage m = last (pages m)"
      using oks by (simp add: pm em split_ok_def)
  qed
  moreover have "\<forall>s \<in> set (take k xs). split_ok s" "\<forall>s \<in> set (drop (Suc (Suc k)) xs). split_ok s"
    using all by (auto dest: in_set_takeD in_set_dropD)
  ultimately have "list_all split_ok (take k xs @ m # drop (Suc (Suc k)) xs)"
    by (auto simp: list_all_iff)
  moreover have "concat (map pages (take k xs @ m # drop (Suc (Suc k)) xs)) = [1..n]"
    using whole by simp
  ultimately show ?thesis
    by (simp add: coverage_def)
qed

text \<open>
  C4. Let the split list satisfy the coverage invariant for the pages \<open>1..n\<close>: the pages
  of each split are strictly increasing and contiguous, its \<open>startPage\<close> and \<open>endPage\<close> are
  the first and the last of them, and the page lists in order make up \<open>[1, \<dots>, n]\<close>. Then
  at every valid index \<^verbatim>\<open>mergeWithPrevious\<close> and \<^verbatim>\<open>mergeWithNext\<close> complete with a split
  list that satisfies the invariant again, for the same \<open>n\<close>; the \<open>startPage\<close> of the merged
  split is the first and its \<open>endPage\<close> the last of its merged pages; and the list has
  exactly one split less.
\<close>

theorem merge_preserves_coverage:
  assumes "coverage n (detectedSplits st)"
  shows "(0 < index \<and> index < int (length (detectedSplits st)) \<longrightarrow>
            (\<exists>st'. mergeWithPrevious env index st = Inr st' \<and>
               coverage n (detectedSplits st') \<and>
               startPage (detectedSplits st' ! (nat index - 1)) =
                 hd (pages (detectedSplits st' ! (nat index - 1))) \<and>
               endPage (detectedSplits st' ! (nat index - 1)) =
                 last (pages (detectedSplits st' ! (nat index - 1))) \<and>
               Suc (length (detectedSplits st')) = length (detectedSplits st))) \<and>
         (0 \<le> index \<and> index < int (length (detectedSplits st)) - 1 \<longrightarrow>
            (\<exists>st'. mergeWithNext env index st = Inr st' \<and>
               coverage n (detectedSplits st') \<and>
               startPage (detectedSplits st' ! nat index) =
                 hd (pages (detectedSplits st' ! nat index)) \<and>
               endPage (detectedSplits st' ! nat index) =
                 last (pages (detectedSplits st' ! nat index)) \<and>
               Suc (length (detectedSplits st')) = length (detectedSplits st)))"
proof (intro conjI impI)
  assume v: "0 < index \<and> index < int (length (detectedSplits st))"
  define k where "k = nat index - 1"
  have k: "Suc k < length (detectedSplits st)" "nat index = Suc k"
    using v by (auto simp: k_def nat_less_iff)
  define m where "m = (detectedSplits st ! k)
      \<lparr>pages := pages (detectedSplits st ! k) @ pages (detectedSplits st ! Suc k),
       endPage := endPage (detectedSplits st ! Suc k)\<rparr>"
  from mergeWithPrevious_valid [of index st env] v
  obtain st' where st': "mergeWithPrevious env index st = Inr st'"
    and ds': "detectedSplits st' =
      take k (detectedSplits st) @ m # drop (Suc (Suc k)) (detectedSplits st)"
    by (simp add: k m_def)
  have cov: "coverage n (detectedSplits st')"
    unfolding ds' by (rule merged_coverage [OF assms k(1)]) (simp_all add: m_def)
  have at: "detectedSplits st' ! k = m" and len: "Suc (length (detectedSplits st')) = length (detectedSplits st)"
    using k(1) by (simp_all add: ds' nth_append)
  have "split_ok (detectedSplits st' ! k)"
    using cov len k(1) by (simp add: coverage_def list_all_length)
  with st' cov len show "\<exists>st'. mergeWithPrevious env index st = Inr st' \<and>
               coverage n (detectedSplits st') \<and>
               startPage (detectedSplits st' ! (nat index - 1)) =
                 hd (pages (detectedSplits st' ! (nat index - 1))) \<and>
               endPage (detectedSplits st' ! (nat index - 1)) =
                 last (pages (detectedSplits st' ! (nat index - 1))) \<and>
               Suc (length (detectedSplits st')) = length (detectedSplits st)"
    unfolding k_def split_ok_def by blast
next
  assume v: "0 \<le> index \<and> index < int (length (detectedSplits st)) - 1"
  define k where "k = nat index"
  have k: "Suc k < length (detectedSplits st)"
    using v by (auto simp: k_def)
  define m where "m = (detectedSplits st ! k)
      \<lparr>pages := pages (detectedSplits st ! k) @ pages (detectedSplits st ! Suc k),
       endPage := endPage (detectedSplits st ! Suc k),
       instrument := instrument (detectedSplits st ! Suc k)\<rparr>"
  from mergeWithNext_valid [of index st env] v
  obtain st' where st': "mergeWithNext env index st = Inr st'"
    and ds': "detectedSplits st' =
      take k (detectedSplits st) @ m # drop (Suc (Suc k)) (detectedSplits st)"
    by (simp add: k_def m_def)
  have cov: "coverage n (detectedSplits st')"
    unfolding ds' by (rule merged_coverage [OF assms k]) (simp_all add: m_def)
  have len: "Suc (length (detectedSplits st')) = length (detectedSplits st)"
    using k by (simp add: ds')
  have "split_ok (detectedSplits st' ! k)"
    using cov len k by (simp add: coverage_def list_all_length)
  with st' cov len show "\<exists>st'. mergeWithNext env index st = Inr st' \<and>
               coverage n (detectedSplits st') \<and>
               startPage (detectedSplits st' ! nat index) =
                 hd (pages (detectedSplits st' ! nat index)) \<and>
               endPage (detectedSplits st' ! nat index) =
                 last (pages (detectedSplits st' ! nat index)) \<and>
               Suc (length (detectedSplits st')) = length (detectedSplits st)"
    unfolding k_def split_ok_def by blast
qed

theorem merge_preserves_coverage_witness:
  "coverage 5 (detectedSplits trio_session) \<and>
   (\<exists>st'. mergeWithPrevious band_env 2 trio_session = Inr st' \<and>
      coverage 5 (detectedSplits st') \<and> length (detectedSplits st') = 2) \<and>
   (\<exists>st'. mergeWithNext band_env 0 trio_session = Inr st' \<and>
      coverage 5 (detectedSplits st') \<and> length (detectedSplits st') = 2)"
proof -
  have len: "length (detectedSplits trio_session) = 3"
    by (simp add: trio_session_def trio_def)
  have "coverage 5 trio" by code_simp
  then have cov: "coverage 5 (detectedSplits trio_session)"
    by (simp add: trio_session_def)
  have p: "0 < (2::int) \<and> 2 < int (length (detectedSplits trio_session))"
    and n: "0 \<le> (0::int) \<and> 0 < int (length (detectedSplits trio_session)) - 1"
    using len by simp_all
  from merge_preserves_coverage [OF cov, of 2 band_env] p len
  have a: "\<exists>st'. mergeWithPrevious band_env 2 trio_session = Inr st' \<and>
      coverage 5 (detectedSplits st') \<and> length (detectedSplits st') = 2"
    by auto
  from merge_preserves_coverage [OF cov, of 0 band_env] n len
  have b: "\<exists>st'. mergeWithNext band_env 0 trio_session = Inr st' \<and>
      coverage 5 (detectedSplits st') \<and> length (detectedSplits st') = 2"
    by auto
  from cov a b show ?thesis by blast
qed

section \<open>Properties of the segmenter and the resolver\<close>

lemma segment_from_concat:
  "concat (map pages (segment_from cur ls)) = pages cur @ map pageIndex ls"
  by (induction ls arbitrary: cur) (simp_all add: new_split_def)

lemma segment_concat: "concat (map pages (segment ls)) = map pageIndex ls"
  by (simp add: segment_def segment_from_concat new_split_def split: list.splits)

lemma segment_from_not_Nil: "segment_from cur ls \<noteq> []"
  by (induction ls arbitrary: cur) simp_all

lemma segment_from_first:
  "\<exists>s ss more. segment_from cur ls = s # ss \<and> instrument s = instrument cur \<and>
      startPage s = startPage cur \<and> pages s = pages cur @ more"
proof (induction ls arbitrary: cur)
  case Nil
  show ?case by simp
next
  case (Cons l ls)
  show ?case
  proof (cases "resolved_instrument l \<noteq> instrument cur")
    case True
    then show ?thesis by simp
  next
    case False
    define nxt where "nxt = cur\<lparr>endPage := pageIndex l, pages := pages cur @ [pageIndex l]\<rparr>"
    from Cons [of nxt]
    obtain s ss more where s: "segment_from nxt ls = s # ss"
      "instrument s = instrument nxt" "startPage s = startPage nxt"
      "pages s = pages nxt @ more"
      by blast
    have "segment_from cur (l # ls) = s # ss"
      using False s(1) by (simp add: nxt_def)
    moreover have "instrument s = instrument cur" "startPage s = startPage cur"
      "pages s = pages cur @ pageIndex l # more"
      using s(2-4) by (simp_all add: nxt_def)
    ultimately show ?thesis by blast
  qed
qed

text \<open>Every split of the pass starts and ends with its first and last page.\<close>

lemma segment_from_ends:
  assumes "pages cur \<noteq> []" "startPage cur = hd (pages cur)" "endPage cur = last (pages cur)"
  shows "\<forall>s \<in> set (segment_from cur ls).
           pages s \<noteq> [] \<and> startPage s = hd (pages s) \<and> endPage s = last (pages s)"
  using assms
proof (induction ls arbitrary: cur)
  case Nil
  then show ?case by simp
next
  case (Cons l ls)
  define nxt where "nxt = cur\<lparr>endPage := pageIndex l, pages := pages cur @ [pageIndex l]\<rparr>"
  have new: "\<forall>s \<in> set (segment_from (new_split l) ls).
           pages s \<noteq> [] \<and> startPage s = hd (pages s) \<and> endPage s = last (pages s)"
    by (rule Cons.IH) (simp_all add: new_split_def)
  have grown: "\<forall>s \<in> set (segment_from nxt ls).
           pages s \<noteq> [] \<and> startPage s = hd (pages s) \<and> endPage s = last (pages s)"
    by (rule Cons.IH) (use Cons.prems in \<open>simp_all add: nxt_def\<close>)
  show ?case
  proof (cases "resolved_instrument l \<noteq> instrument cur")
    case True
    have "segment_from cur (l # ls) = cur # segment_from (new_split l) ls"
      using True by simp
    with new Cons.prems show ?thesis by simp
  next
    case False
    have "segment_from cur (l # ls) = segment_from nxt ls"
      using False by (simp add: nxt_def)
    with grown show ?thesis by simp
  qed
qed

lemma new_split_fields:
  "instrument (new_split l) = resolved_instrument l" "startPage (new_split l) = pageIndex l"
  "endPage (new_split l) = pageIndex l" "pages (new_split l) = [pageIndex l]"
  by (simp_all add: new_split_def)

text \<open>
  The first pages of the splits: the first page of the open split, and then each page whose
  instrument differs from the instrument before it, which is the instrument of the open
  split for the first label and the instrument of the label before otherwise.
\<close>

lemma segment_from_starts:
  "map startPage (segment_from cur ls) =
     startPage cur #
     map (pageIndex \<circ> snd)
       (filter (\<lambda>(before, l). resolved_instrument l \<noteq> before)
         (zip (instrument cur # map resolved_instrument ls) ls))"
proof (induction ls arbitrary: cur)
  case Nil
  show ?case by simp
next
  case (Cons l ls)
  define nxt where "nxt = cur\<lparr>endPage := pageIndex l, pages := pages cur @ [pageIndex l]\<rparr>"
  show ?case
  proof (cases "resolved_instrument l \<noteq> instrument cur")
    case True
    have "map startPage (segment_from cur (l # ls)) =
          startPage cur # map startPage (segment_from (new_split l) ls)"
      using True by simp
    also have "map startPage (segment_from (new_split l) ls) =
          startPage (new_split l) #
          map (pageIndex \<circ> snd)
            (filter (\<lambda>(before, l). resolved_instrument l \<noteq> before)
              (zip (instrument (new_split l) # map resolved_instrument ls) ls))"
      by (rule Cons.IH)
    finally show ?thesis
      using True by (simp add: new_split_fields)
  next
    case False
    have "map startPage (segment_from cur (l # ls)) = map startPage (segment_from nxt ls)"
      using False by (simp add: nxt_def)
    also have "\<dots> =
          startPage nxt #
          map (pageIndex \<circ> snd)
            (filter (\<lambda>(before, l). resolved_instrument l \<noteq> before)
              (zip (instrument nxt # map resolved_instrument ls) ls))"
      by (rule Cons.IH)
    finally show ?thesis
      using False by (simp add: nxt_def)
  qed
qed

lemma segment_from_start_iff:
  "x \<in> set (map startPage (segment_from cur ls)) \<longleftrightarrow>
     x = startPage cur \<or>
     (\<exists>k < length ls. x = pageIndex (ls ! k) \<and>
        resolved_instrument (ls ! k) \<noteq> (instrument cur # map resolved_instrument ls) ! k)"
proof -
  define before where "before = instrument cur # map resolved_instrument ls"
  have pairs: "set (zip before ls) = {(before ! k, ls ! k) | k. k < length ls}"
    by (simp add: set_zip before_def)
  have "x \<in> set (map (pageIndex \<circ> snd)
            (filter (\<lambda>(b, l). resolved_instrument l \<noteq> b) (zip before ls))) \<longleftrightarrow>
        (\<exists>k < length ls. x = pageIndex (ls ! k) \<and> resolved_instrument (ls ! k) \<noteq> before ! k)"
    (is "?L \<longleftrightarrow> ?R")
  proof
    assume ?L
    then obtain b l where "(b, l) \<in> set (zip before ls)" "resolved_instrument l \<noteq> b"
      "x = pageIndex l"
      by auto
    with pairs show ?R by auto
  next
    assume ?R
    then obtain k where k: "k < length ls" "x = pageIndex (ls ! k)"
      "resolved_instrument (ls ! k) \<noteq> before ! k"
      by blast
    then have "(before ! k, ls ! k) \<in> set (zip before ls)"
      using pairs by blast
    with k(2,3) show ?L by (force simp: image_iff)
  qed
  then show ?thesis
    unfolding segment_from_starts before_def by simp
qed

text \<open>A page of a split carries the instrument of the split.\<close>

lemma segment_from_instrument:
  assumes "s \<in> set (segment_from cur ls)" and "p \<in> set (pages s)"
  shows "(p \<in> set (pages cur) \<and> instrument s = instrument cur) \<or>
         (\<exists>l \<in> set ls. pageIndex l = p \<and> resolved_instrument l = instrument s)"
  using assms
proof (induction ls arbitrary: cur)
  case Nil
  then show ?case by simp
next
  case (Cons l ls)
  define nxt where "nxt = cur\<lparr>endPage := pageIndex l, pages := pages cur @ [pageIndex l]\<rparr>"
  show ?case
  proof (cases "resolved_instrument l \<noteq> instrument cur")
    case True
    then have "s = cur \<or> s \<in> set (segment_from (new_split l) ls)"
      using Cons.prems(1) by simp
    then show ?thesis
    proof
      assume "s = cur"
      with Cons.prems(2) show ?thesis by simp
    next
      assume "s \<in> set (segment_from (new_split l) ls)"
      from Cons.IH [OF this Cons.prems(2)] show ?thesis
        by (auto simp: new_split_fields)
    qed
  next
    case False
    then have "s \<in> set (segment_from nxt ls)"
      using Cons.prems(1) by (simp add: nxt_def)
    from Cons.IH [OF this Cons.prems(2)] False show ?thesis
      by (auto simp: nxt_def)
  qed
qed

text \<open>
  C7. For a non-empty sequence of \<open>N\<close> resolved labels, numbered \<open>1..N\<close>, \<open>segment\<close> returns
  at least one split; the page lists of the splits, put together in order, are exactly
  \<open>[1, \<dots>, N]\<close>, and each split is well formed (the coverage invariant). A page is the first
  page of a split exactly when it is the first page of the input or its instrument differs,
  as a string, from the instrument of the page before it; that instrument is the one of
  the split being accumulated, since every page of a split carries the instrument of the
  split.
\<close>

theorem segment_covers:
  assumes "ls \<noteq> []" and "map pageIndex ls = [1..int (length ls)]"
  shows "segment ls \<noteq> [] \<and>
         concat (map pages (segment ls)) = [1..int (length ls)] \<and>
         coverage (int (length ls)) (segment ls) \<and>
         (\<forall>k < length ls.
            (\<exists>s \<in> set (segment ls). startPage s = pageIndex (ls ! k)) \<longleftrightarrow>
            (k = 0 \<or> resolved_instrument (ls ! k) \<noteq> resolved_instrument (ls ! (k - 1)))) \<and>
         (\<forall>s \<in> set (segment ls). \<forall>k < length ls.
            pageIndex (ls ! k) \<in> set (pages s) \<longrightarrow> instrument s = resolved_instrument (ls ! k))"
proof -
  from assms(1) obtain l0 rest where ls: "ls = l0 # rest"
    by (cases ls) auto
  have seg: "segment ls = segment_from (new_split l0) rest"
    by (simp add: segment_def ls)
  have cat: "concat (map pages (segment ls)) = [1..int (length ls)]"
    using assms(2) by (simp add: segment_concat)
  have "distinct (map pageIndex ls)"
    unfolding assms(2) by simp
  then have inj: "pageIndex (ls ! i) = pageIndex (ls ! j) \<longleftrightarrow> i = j"
    if "i < length ls" "j < length ls" for i j
    using nth_eq_iff_index_eq [of "map pageIndex ls" i j] that by simp
  have nonempty: "segment ls \<noteq> []"
    unfolding seg by (rule segment_from_not_Nil)
  have ok: "split_ok s" if s: "s \<in> set (segment ls)" for s
  proof -
    from s obtain xs ys where "segment ls = xs @ s # ys"
      by (auto simp: in_set_conv_decomp)
    then have "concat (map pages xs) @ pages s @ concat (map pages ys) = [1..int (length ls)]"
      using cat by simp
    from stretch_of_upto [OF this]
    have "successively (\<lambda>p q. q = p + 1) (pages s)" "sorted_wrt (<) (pages s)" .
    moreover have "pages s \<noteq> [] \<and> startPage s = hd (pages s) \<and> endPage s = last (pages s)"
      using segment_from_ends [of "new_split l0" rest] s
      by (simp add: seg new_split_fields)
    ultimately show ?thesis
      by (simp add: split_ok_def)
  qed
  have cov: "coverage (int (length ls)) (segment ls)"
    using ok cat by (simp add: coverage_def list_all_iff)
  have starts: "(\<exists>s \<in> set (segment ls). startPage s = pageIndex (ls ! k)) \<longleftrightarrow>
      (k = 0 \<or> resolved_instrument (ls ! k) \<noteq> resolved_instrument (ls ! (k - 1)))"
    if k: "k < length ls" for k
  proof -
    have "(\<exists>s \<in> set (segment ls). startPage s = pageIndex (ls ! k)) \<longleftrightarrow>
          pageIndex (ls ! k) \<in> set (map startPage (segment ls))"
      by force
    also have "\<dots> \<longleftrightarrow> pageIndex (ls ! k) = pageIndex l0 \<or>
        (\<exists>j < length rest. pageIndex (ls ! k) = pageIndex (rest ! j) \<and>
           resolved_instrument (rest ! j) \<noteq>
             (resolved_instrument l0 # map resolved_instrument rest) ! j)"
      unfolding seg segment_from_start_iff by (simp add: new_split_fields)
    also have "\<dots> \<longleftrightarrow> pageIndex (ls ! k) = pageIndex (ls ! 0) \<or>
        (\<exists>j. Suc j < length ls \<and> pageIndex (ls ! k) = pageIndex (ls ! Suc j) \<and>
           resolved_instrument (ls ! Suc j) \<noteq> resolved_instrument (ls ! j))"
    proof -
      have "(resolved_instrument l0 # map resolved_instrument rest) ! j =
            resolved_instrument (ls ! j)" if "j < length rest" for j
        using that by (simp add: ls nth_Cons')
      then show ?thesis
        by (auto simp: ls)
    qed
    also have "\<dots> \<longleftrightarrow> k = 0 \<or>
        (\<exists>j. Suc j < length ls \<and> k = Suc j \<and>
           resolved_instrument (ls ! Suc j) \<noteq> resolved_instrument (ls ! j))"
      using inj k assms(1) by (metis length_greater_0_conv)
    also have "\<dots> \<longleftrightarrow> k = 0 \<or> resolved_instrument (ls ! k) \<noteq> resolved_instrument (ls ! (k - 1))"
      using k by (cases k) auto
    finally show ?thesis .
  qed
  have instr: "instrument s = resolved_instrument (ls ! k)"
    if s: "s \<in> set (segment ls)" and k: "k < length ls" and p: "pageIndex (ls ! k) \<in> set (pages s)"
    for s k
  proof -
    have "s \<in> set (segment_from (new_split l0) rest)"
      using s by (simp only: seg)
    from segment_from_instrument [OF this p]
    have "\<exists>l \<in> set (l0 # rest).
            pageIndex l = pageIndex (ls ! k) \<and> resolved_instrument l = instrument s"
      by (auto simp: new_split_fields)
    then have "\<exists>l \<in> set ls. pageIndex l = pageIndex (ls ! k) \<and> resolved_instrument l = instrument s"
      by (simp only: ls)
    then obtain j where j: "j < length ls" "pageIndex (ls ! j) = pageIndex (ls ! k)"
      "resolved_instrument (ls ! j) = instrument s"
      by (auto simp: in_set_conv_nth)
    from inj [OF j(1) k] j(2) have "j = k" by simp
    with j(3) show ?thesis by simp
  qed
  from nonempty cat cov starts instr show ?thesis by blast
qed

theorem segment_covers_witness:
  "horn_labels \<noteq> [] \<and> map pageIndex horn_labels = [1..int (length horn_labels)] \<and>
   segment horn_labels \<noteq> [] \<and>
   concat (map pages (segment horn_labels)) = [1..4] \<and>
   coverage 4 (segment horn_labels) \<and>
   map pages (segment horn_labels) = [[1, 2], [3], [4]]"
proof -
  have h1: "horn_labels \<noteq> []" and len: "length horn_labels = 4"
    by (simp_all add: horn_labels_def)
  have h2: "map pageIndex horn_labels = [1..int (length horn_labels)]"
    by code_simp
  have ev: "map pages (segment horn_labels) = [[1, 2], [3], [4]]"
    by code_simp
  from segment_covers [OF h1 h2] len
  have "segment horn_labels \<noteq> []" "concat (map pages (segment horn_labels)) = [1..4]"
    "coverage 4 (segment horn_labels)"
    by simp_all
  with h1 h2 ev show ?thesis by blast
qed

subsection \<open>Continuation pages\<close>

lemma resolve_from_pageIndex:
  "map pageIndex (resolve_from classify previousResolved pgs) = map page_index pgs"
  by (induction pgs arbitrary: previousResolved)
    (simp_all add: resolve_def Let_def split: option.splits)

lemma number_pages_index: "map page_index (number_pages raws) = [1..int (length raws)]"
proof -
  have "map page_index (number_pages raws) = map fst (zip [1..int (length raws)] raws)"
    by (simp add: number_pages_def case_prod_unfold comp_def)
  also have "\<dots> = [1..int (length raws)]"
    by (rule map_fst_zip) simp
  finally show ?thesis .
qed

lemma analyze_concat:
  "concat (map pages (analyze classify raws)) = [1..int (length raws)]"
  by (simp add: analyze_def segment_concat resolve_from_pageIndex number_pages_index)

lemma number_pages_first:
  "\<exists>pgs. number_pages (raw # raws) = \<lparr>page_index = 1, rawText = raw\<rparr> # pgs"
proof -
  have "[1..int (length (raw # raws))] = 1 # [1 + 1..int (length (raw # raws))]"
    by (rule upto_rec1) simp
  then show ?thesis
    by (simp add: number_pages_def)
qed

text \<open>
  C8. A page without text that has a resolved page before it gets the instrument and the
  matched flag of that page. With a catalog matching that tells Cornet from Trombone, the
  texts Cornet, none, none, Trombone give exactly two splits, the first with the
  instrument of Cornet and the pages 1, 2, 3, the second with the instrument of Trombone
  and the page 4; when every text is its own canonical name these are the splits Cornet
  and Trombone. A first page without text gets the empty instrument, unmatched, and it is
  not dropped: the first split has the empty instrument and begins with page 1, and the
  splits still cover all pages.
\<close>

theorem resolve_continuation:
  "resolve classify \<lparr>page_index = i, rawText = None\<rparr> (Some prev) =
     \<lparr>pageIndex = i, resolved_instrument = resolved_instrument prev, matched = matched prev\<rparr> \<and>
   (fst (classify (js ''Cornet'')) \<noteq> fst (classify (js ''Trombone'')) \<longrightarrow>
      map (\<lambda>s. (instrument s, pages s))
        (analyze classify [Some (js ''Cornet''), None, None, Some (js ''Trombone'')]) =
      [(fst (classify (js ''Cornet'')), [1, 2, 3]), (fst (classify (js ''Trombone'')), [4])]) \<and>
   analyze verbatim [Some (js ''Cornet''), None, None, Some (js ''Trombone'')] =
     [\<lparr>instrument = js ''Cornet'', startPage = 1, endPage = 3, pages = [1, 2, 3]\<rparr>,
      \<lparr>instrument = js ''Trombone'', startPage = 4, endPage = 4, pages = [4]\<rparr>] \<and>
   resolve classify \<lparr>page_index = i, rawText = None\<rparr> None =
     \<lparr>pageIndex = i, resolved_instrument = [], matched = False\<rparr> \<and>
   (\<exists>s ss more. analyze classify (None # raws) = s # ss \<and>
      instrument s = [] \<and> startPage s = 1 \<and> pages s = 1 # more) \<and>
   concat (map pages (analyze classify (None # raws))) = [1..1 + int (length raws)]"
proof (intro conjI impI)
  show "resolve classify \<lparr>page_index = i, rawText = None\<rparr> (Some prev) =
     \<lparr>pageIndex = i, resolved_instrument = resolved_instrument prev, matched = matched prev\<rparr>"
    by (simp add: resolve_def)
  show "resolve classify \<lparr>page_index = i, rawText = None\<rparr> None =
     \<lparr>pageIndex = i, resolved_instrument = [], matched = False\<rparr>"
    by (simp add: resolve_def)
  have four: "number_pages [a, b, c, d] =
      [\<lparr>page_index = 1, rawText = a\<rparr>, \<lparr>page_index = 2, rawText = b\<rparr>,
       \<lparr>page_index = 3, rawText = c\<rparr>, \<lparr>page_index = 4, rawText = d\<rparr>]" for a b c d
  proof -
    have "[1..int (length [a, b, c, d])] = [1, 2, 3, 4]"
      by (simp add: upto_rec1)
    then show ?thesis
      by (simp add: number_pages_def)
  qed
  show "analyze verbatim [Some (js ''Cornet''), None, None, Some (js ''Trombone'')] =
     [\<lparr>instrument = js ''Cornet'', startPage = 1, endPage = 3, pages = [1, 2, 3]\<rparr>,
      \<lparr>instrument = js ''Trombone'', startPage = 4, endPage = 4, pages = [4]\<rparr>]"
    by (simp add: analyze_def four resolve_def segment_def new_split_def verbatim_def js_def)
  show "concat (map pages (analyze classify (None # raws))) = [1..1 + int (length raws)]"
    by (simp add: analyze_concat)
  show "\<exists>s ss more. analyze classify (None # raws) = s # ss \<and>
      instrument s = [] \<and> startPage s = 1 \<and> pages s = 1 # more"
  proof -
    from number_pages_first [of None raws]
    obtain pgs where pgs: "number_pages (None # raws) = \<lparr>page_index = 1, rawText = None\<rparr> # pgs"
      by blast
    define r where "r = \<lparr>pageIndex = 1, resolved_instrument = [], matched = False\<rparr>"
    have "analyze classify (None # raws) =
          segment_from (new_split r) (resolve_from classify (Some r) pgs)"
      by (simp add: analyze_def pgs resolve_def Let_def segment_def r_def)
    with segment_from_first [of "new_split r" "resolve_from classify (Some r) pgs"]
    show ?thesis
      by (auto simp: new_split_fields r_def)
  qed
next
  assume differ: "fst (classify (js ''Cornet'')) \<noteq> fst (classify (js ''Trombone''))"
  have four: "number_pages [a, b, c, d] =
      [\<lparr>page_index = 1, rawText = a\<rparr>, \<lparr>page_index = 2, rawText = b\<rparr>,
       \<lparr>page_index = 3, rawText = c\<rparr>, \<lparr>page_index = 4, rawText = d\<rparr>]" for a b c d
  proof -
    have "[1..int (length [a, b, c, d])] = [1, 2, 3, 4]"
      by (simp add: upto_rec1)
    then show ?thesis
      by (simp add: number_pages_def)
  qed
  from differ have differ': "fst (classify (js ''Trombone'')) \<noteq> fst (classify (js ''Cornet''))"
    by (rule not_sym)
  show "map (\<lambda>s. (instrument s, pages s))
        (analyze classify [Some (js ''Cornet''), None, None, Some (js ''Trombone'')]) =
      [(fst (classify (js ''Cornet'')), [1, 2, 3]), (fst (classify (js ''Trombone'')), [4])]"
    using differ differ'
    by (simp add: analyze_def four resolve_def segment_def new_split_def Let_def)
qed

theorem resolve_continuation_witness:
  "fst (verbatim (js ''Cornet'')) \<noteq> fst (verbatim (js ''Trombone'')) \<and>
   map (\<lambda>s. (instrument s, pages s))
     (analyze verbatim [Some (js ''Cornet''), None, None, Some (js ''Trombone'')]) =
   [(js ''Cornet'', [1, 2, 3]), (js ''Trombone'', [4])]"
proof -
  have differ: "fst (verbatim (js ''Cornet'')) \<noteq> fst (verbatim (js ''Trombone''))"
    by (simp add: verbatim_def js_def)
  from resolve_continuation [of verbatim] differ
  have "map (\<lambda>s. (instrument s, pages s))
     (analyze verbatim [Some (js ''Cornet''), None, None, Some (js ''Trombone'')]) =
     [(fst (verbatim (js ''Cornet'')), [1, 2, 3]), (fst (verbatim (js ''Trombone'')), [4])]"
    by blast
  with differ show ?thesis
    by (simp add: verbatim_def)
qed

section \<open>Properties of the outputs with regenerations under way\<close>

lemma splice1_without:
  "0 \<le> i \<Longrightarrow> i \<le> int (length xs) \<Longrightarrow> splice1 i xs = without (nat i) xs"
  by (simp add: splice1_in without_def)

lemma length_without: "r < length xs \<Longrightarrow> length (without r xs) = length xs - 1"
  by (simp add: without_def)

lemma nth_without_before: "j < r \<Longrightarrow> r \<le> length xs \<Longrightarrow> without r xs ! j = xs ! j"
  by (simp add: without_def nth_append)





text \<open>The assignments of a merge, one after the other, as one update of the object.\<close>

lemma merge_up_store:
  "(h(p := (h p)\<lparr>pages := pages (h p) @ pages (h c)\<rparr>))
     (p := ((h(p := (h p)\<lparr>pages := pages (h p) @ pages (h c)\<rparr>)) p)
             \<lparr>endPage := endPage ((h(p := (h p)\<lparr>pages := pages (h p) @ pages (h c)\<rparr>)) c)\<rparr>) =
   h(p := (h p)\<lparr>pages := pages (h p) @ pages (h c), endPage := endPage (h c)\<rparr>)"
  for h :: "ref \<Rightarrow> split"
  by (cases "c = p") simp_all

lemma merge_down_store:
  "(h(c := (h c)\<lparr>pages := ps, endPage := endPage (h n)\<rparr>))
     (c := ((h(c := (h c)\<lparr>pages := ps, endPage := endPage (h n)\<rparr>)) c)
             \<lparr>instrument :=
                instrument ((h(c := (h c)\<lparr>pages := ps, endPage := endPage (h n)\<rparr>)) n)\<rparr>) =
   h(c := (h c)\<lparr>pages := ps, endPage := endPage (h n), instrument := instrument (h n)\<rparr>)"
  for h :: "ref \<Rightarrow> split"
  by (cases "n = c") simp_all

lemma mergeWithPrevious_async_valid:
  assumes "0 < index" and "index < int (length (detectedSplits_async st))"
  shows "mergeWithPrevious_async index st =
     Inr (st\<lparr>heap := (heap st)
                (detectedSplits_async st ! (nat index - 1) :=
                   (heap st (detectedSplits_async st ! (nat index - 1)))
                     \<lparr>pages := pages (heap st (detectedSplits_async st ! (nat index - 1))) @
                               pages (heap st (detectedSplits_async st ! nat index)),
                      endPage := endPage (heap st (detectedSplits_async st ! nat index))\<rparr>),
             detectedSplits_async := without (nat index) (detectedSplits_async st),
             generatedPDFs_async := splice1 index (generatedPDFs_async st),
             pending := pending st @
               [Loading (index - 1) (Some (detectedSplits_async st ! (nat index - 1)))]\<rparr>)"
proof -
  have i: "0 < nat index" "nat index < length (detectedSplits_async st)" "index \<noteq> 0"
    using assms by simp_all
  have prev: "js_index (detectedSplits_async st) (index - 1) =
        Some (detectedSplits_async st ! (nat index - 1))"
    using assms by (simp add: js_index_def nat_diff_distrib')
  have cur: "js_index (detectedSplits_async st) index = Some (detectedSplits_async st ! nat index)"
    using assms by (simp add: js_index_def)
  have spl: "splice1 index (detectedSplits_async st) = without (nat index) (detectedSplits_async st)"
    using assms by (simp add: splice1_without)
  have taken: "js_index (without (nat index) (detectedSplits_async st)) (index - 1) =
        Some (detectedSplits_async st ! (nat index - 1))"
    using assms i
    by (simp add: js_index_def length_without nth_without_before nat_diff_distrib')
  show ?thesis
    unfolding mergeWithPrevious_async_def Let_def prev cur spl merge_up_store
      regeneratePDFForSplit_start_def
    using i(3) taken by simp
qed

lemma mergeWithNext_async_valid:
  assumes "0 \<le> index" and "index < int (length (detectedSplits_async st)) - 1"
  shows "mergeWithNext_async index st =
     Inr (st\<lparr>heap := (heap st)
                (detectedSplits_async st ! nat index :=
                   (heap st (detectedSplits_async st ! nat index))
                     \<lparr>pages := pages (heap st (detectedSplits_async st ! nat index)) @
                               pages (heap st (detectedSplits_async st ! Suc (nat index))),
                      endPage := endPage (heap st (detectedSplits_async st ! Suc (nat index))),
                      instrument :=
                        instrument (heap st (detectedSplits_async st ! Suc (nat index)))\<rparr>),
             detectedSplits_async := without (Suc (nat index)) (detectedSplits_async st),
             generatedPDFs_async := splice1 (index + 1) (generatedPDFs_async st),
             pending := pending st @
               [Loading index (Some (detectedSplits_async st ! nat index))]\<rparr>)"
proof -
  have i: "Suc (nat index) < length (detectedSplits_async st)"
    "index \<noteq> int (length (detectedSplits_async st)) - 1"
    using assms by simp_all
  have cur: "js_index (detectedSplits_async st) index = Some (detectedSplits_async st ! nat index)"
    using assms by (simp add: js_index_def)
  have nxt: "js_index (detectedSplits_async st) (index + 1) =
        Some (detectedSplits_async st ! Suc (nat index))"
    using assms by (simp add: js_index_def nat_add_distrib)
  have spl: "splice1 (index + 1) (detectedSplits_async st) =
        without (Suc (nat index)) (detectedSplits_async st)"
    using assms splice1_without [of "index + 1" "detectedSplits_async st"]
    by (simp add: nat_add_distrib)
  have taken: "js_index (without (Suc (nat index)) (detectedSplits_async st)) index =
        Some (detectedSplits_async st ! nat index)"
    using assms i(1) by (simp add: js_index_def length_without nth_without_before)
  show ?thesis
    unfolding mergeWithNext_async_def Let_def cur nxt spl merge_up_store merge_down_store
      regeneratePDFForSplit_start_def
    using i(2) taken by simp
qed

lemma length_with_output [simp]: "length (with_output k out outs) = length outs"
  by (cases out) (simp_all add: with_output_def)






subsection \<open>The split list of the store\<close>

text \<open>
  When the objects of the split list are pairwise different, the handlers on the store
  leave the split list that the handlers on values compute, whatever the index and
  whatever the outputs: for the split list, a mutated object is an updated position.
\<close>

lemma map_fun_upd_distinct:
  assumes "distinct xs" and "k < length xs"
  shows "map (f(xs ! k := v)) xs = (map f xs)[k := v]"
proof (rule nth_equalityI)
  show "length (map (f(xs ! k := v)) xs) = length ((map f xs)[k := v])"
    by simp
next
  fix j
  assume "j < length (map (f(xs ! k := v)) xs)"
  then have j: "j < length xs" by simp
  show "map (f(xs ! k := v)) xs ! j = (map f xs)[k := v] ! j"
    using j assms nth_eq_iff_index_eq [OF assms(1) j assms(2)]
    by (cases "j = k") simp_all
qed

lemma map_without: "map f (without r xs) = without r (map f xs)"
  by (simp add: without_def take_map drop_map)

lemma js_index_map: "js_index (map f xs) i = map_option f (js_index xs i)"
  by (auto simp: js_index_def)

lemma mergeWithPrevious_async_split_list:
  assumes "distinct (detectedSplits_async st)"
  shows "map_sum id splits_of (mergeWithPrevious_async index st) =
         map_sum id detectedSplits
           (mergeWithPrevious env index \<lparr>detectedSplits = splits_of st, generatedPDFs = outs\<rparr>)"
proof (cases "0 < index \<and> index < int (length (detectedSplits_async st))")
  case True
  define k where "k = nat index - 1"
  have k: "nat index = Suc k" "Suc k < length (detectedSplits_async st)"
    using True by (auto simp: k_def nat_less_iff)
  have len: "index < int (length (detectedSplits \<lparr>detectedSplits = splits_of st, generatedPDFs = outs\<rparr>))"
    using True by (simp add: splits_of_def)
  have "map (f(detectedSplits_async st ! k := v)) (without (Suc k) (detectedSplits_async st)) =
        take k (map f (detectedSplits_async st)) @ v # drop (Suc (Suc k)) (map f (detectedSplits_async st))"
    for f :: "ref \<Rightarrow> split" and v
  proof -
    have "map (f(detectedSplits_async st ! k := v)) (without (Suc k) (detectedSplits_async st)) =
          without (Suc k) ((map f (detectedSplits_async st))[k := v])"
      using assms k(2) by (simp add: map_without map_fun_upd_distinct)
    also have "\<dots> = take k (map f (detectedSplits_async st)) @ v #
          drop (Suc (Suc k)) (map f (detectedSplits_async st))"
      using k(2) by (simp add: without_def take_update_last)
    finally show ?thesis .
  qed
  note store = this
  have "map_sum id detectedSplits
          (mergeWithPrevious env index \<lparr>detectedSplits = splits_of st, generatedPDFs = outs\<rparr>) =
        Inr (take k (splits_of st) @
             (splits_of st ! k)\<lparr>pages := pages (splits_of st ! k) @ pages (splits_of st ! Suc k),
                                endPage := endPage (splits_of st ! Suc k)\<rparr> #
             drop (Suc (Suc k)) (splits_of st))"
    unfolding mergeWithPrevious_valid [OF conjunct1 [OF True] len] by (simp add: k(1))
  moreover have "map_sum id splits_of (mergeWithPrevious_async index st) =
        Inr (take k (splits_of st) @
             (splits_of st ! k)\<lparr>pages := pages (splits_of st ! k) @ pages (splits_of st ! Suc k),
                                endPage := endPage (splits_of st ! Suc k)\<rparr> #
             drop (Suc (Suc k)) (splits_of st))"
    unfolding mergeWithPrevious_async_valid [OF conjunct1 [OF True] conjunct2 [OF True]]
    using k(2) by (simp add: splits_of_def k(1) store)
  ultimately show ?thesis by simp
next
  case False
  show ?thesis
  proof (cases "index = 0")
    case True
    then show ?thesis
      by (simp add: mergeWithPrevious_async_def mergeWithPrevious_def)
  next
    case nz: False
    have "mergeWithPrevious_async index st = Inl TypeError"
      using False nz
      by (auto simp: mergeWithPrevious_async_def js_index_def split: option.splits)
    moreover have "mergeWithPrevious env index
        \<lparr>detectedSplits = splits_of st, generatedPDFs = outs\<rparr> = Inl TypeError"
      using False nz by (intro mergeWithPrevious_out_of_range) (simp_all add: splits_of_def)
    ultimately show ?thesis by simp
  qed
qed

lemma mergeWithNext_async_split_list:
  assumes "distinct (detectedSplits_async st)"
  shows "map_sum id splits_of (mergeWithNext_async index st) =
         map_sum id detectedSplits
           (mergeWithNext env index \<lparr>detectedSplits = splits_of st, generatedPDFs = outs\<rparr>)"
proof (cases "0 \<le> index \<and> index < int (length (detectedSplits_async st)) - 1")
  case True
  define k where "k = nat index"
  have k: "Suc k < length (detectedSplits_async st)"
    using True by (auto simp: k_def)
  have len: "index < int (length (detectedSplits \<lparr>detectedSplits = splits_of st, generatedPDFs = outs\<rparr>)) - 1"
    using True by (simp add: splits_of_def)
  have "map (f(detectedSplits_async st ! k := v)) (without (Suc k) (detectedSplits_async st)) =
        take k (map f (detectedSplits_async st)) @ v # drop (Suc (Suc k)) (map f (detectedSplits_async st))"
    for f :: "ref \<Rightarrow> split" and v
  proof -
    have "map (f(detectedSplits_async st ! k := v)) (without (Suc k) (detectedSplits_async st)) =
          without (Suc k) ((map f (detectedSplits_async st))[k := v])"
      using assms k by (simp add: map_without map_fun_upd_distinct)
    also have "\<dots> = take k (map f (detectedSplits_async st)) @ v #
          drop (Suc (Suc k)) (map f (detectedSplits_async st))"
      using k by (simp add: without_def take_update_last)
    finally show ?thesis .
  qed
  note store = this
  have "map_sum id detectedSplits
          (mergeWithNext env index \<lparr>detectedSplits = splits_of st, generatedPDFs = outs\<rparr>) =
        Inr (take k (splits_of st) @
             (splits_of st ! k)\<lparr>pages := pages (splits_of st ! k) @ pages (splits_of st ! Suc k),
                                endPage := endPage (splits_of st ! Suc k),
                                instrument := instrument (splits_of st ! Suc k)\<rparr> #
             drop (Suc (Suc k)) (splits_of st))"
    unfolding mergeWithNext_valid [OF conjunct1 [OF True] len] by (simp flip: k_def)
  moreover have "map_sum id splits_of (mergeWithNext_async index st) =
        Inr (take k (splits_of st) @
             (splits_of st ! k)\<lparr>pages := pages (splits_of st ! k) @ pages (splits_of st ! Suc k),
                                endPage := endPage (splits_of st ! Suc k),
                                instrument := instrument (splits_of st ! Suc k)\<rparr> #
             drop (Suc (Suc k)) (splits_of st))"
    unfolding mergeWithNext_async_valid [OF conjunct1 [OF True] conjunct2 [OF True]]
    using k by (simp add: splits_of_def store flip: k_def)
  ultimately show ?thesis by simp
next
  case False
  show ?thesis
  proof (cases "index = int (length (detectedSplits_async st)) - 1")
    case True
    then show ?thesis
      by (simp add: mergeWithNext_async_def mergeWithNext_def splits_of_def)
  next
    case nz: False
    have "mergeWithNext_async index st = Inl TypeError"
      using False nz
      by (auto simp: mergeWithNext_async_def js_index_def split: option.splits)
    moreover have "mergeWithNext env index
        \<lparr>detectedSplits = splits_of st, generatedPDFs = outs\<rparr> = Inl TypeError"
      using False nz by (intro mergeWithNext_out_of_range) (simp_all add: splits_of_def)
    ultimately show ?thesis by simp
  qed
qed

lemma handleInstrumentNameChange_async_split_list:
  assumes "distinct (detectedSplits_async st)"
  shows "map_sum id splits_of (handleInstrumentNameChange_async index val st) =
         map_sum id detectedSplits
           (handleInstrumentNameChange env index val
              \<lparr>detectedSplits = splits_of st, generatedPDFs = outs\<rparr>)"
proof (cases "0 \<le> index \<and> index < int (length (detectedSplits_async st))")
  case True
  then have k: "nat index < length (detectedSplits_async st)"
    by auto
  have "js_index (detectedSplits_async st) index = Some (detectedSplits_async st ! nat index)"
    using True by (simp add: js_index_def)
  then show ?thesis
    using k assms
    by (simp add: handleInstrumentNameChange_async_def handleInstrumentNameChange_def Let_def
        js_index_map splits_of_def regeneratePDFForSplit_start_def map_fun_upd_distinct)
next
  case False
  then have "js_index (detectedSplits_async st) index = None"
    by (auto simp: js_index_def)
  then show ?thesis
    by (simp add: handleInstrumentNameChange_async_def handleInstrumentNameChange_def Let_def
        js_index_map splits_of_def)
qed

text \<open>A regeneration that goes on leaves the split list alone.\<close>

lemma resume_split_list:
  "detectedSplits_async (snd (regeneratePDFForSplit_resume env t st)) = detectedSplits_async st \<and>
   heap (snd (regeneratePDFForSplit_resume env t st)) = heap st"
proof (cases t)
  case (Loading i ro)
  then show ?thesis by (cases ro) simp_all
next
  case (Saving i r indices)
  then show ?thesis by (simp split: option.splits)
qed

lemma advance_split_list:
  "detectedSplits_async (advance env k st) = detectedSplits_async st \<and>
   heap (advance env k st) = heap st"
  using resume_split_list [of env "pending st ! k" st]
  by (cases "regeneratePDFForSplit_resume env (pending st ! k) st")
    (simp add: advance_def split: option.splits)

end
